theory Spec2Isabelle
  imports Complex_Main "HOL-Library.Word" "HOL-Library.Log_Nat"
begin

section \<open>WESO25 turbine controller: the sketch as state-passing functions\<close>

text \<open>
  The sketch \<^verbatim>\<open>WESO25_Code_Refactored.ino\<close> is an Arduino program: global variables, an
  interrupt handler \<^verbatim>\<open>pulseISR\<close>, \<^verbatim>\<open>setup\<close>, the helper \<^verbatim>\<open>handleRPMUpdates\<close> and \<^verbatim>\<open>loop\<close>.
  The globals become one record, every function takes the record and returns the updated
  one, and what the hardware supplies in one iteration (\<^verbatim>\<open>millis()\<close>, \<^verbatim>\<open>digitalRead\<close>,
  \<^verbatim>\<open>analogRead\<close>) is an input record. What the sketch sends out (\<^verbatim>\<open>Serial.print\<close>,
  \<^verbatim>\<open>Serial.println\<close>, \<^verbatim>\<open>actuator.write\<close>) is appended to a trace, oldest event first.
\<close>

subsection \<open>Single-precision arithmetic\<close>

text \<open>
  The variables declared \<^verbatim>\<open>float\<close> hold IEEE 754 binary32 values; on the AVR boards the
  sketch is written for, \<^verbatim>\<open>double\<close> literals such as \<^verbatim>\<open>60000000.0\<close> are binary32 as well.
  A finite binary32 value is a rational number, and the result of an operation is the exact
  result rounded to the nearest representable value, ties to the even significand.
  \<open>f32\<close> is that rounding: the significand has 24 bits, the smallest spacing is
  \<open>2 ^ -149\<close> (subnormals included). Overflow to infinity (results of magnitude
  \<open>2 ^ 128\<close> and more) is not modelled; no value of the sketch comes near it.
\<close>

definition rne :: "rat \<Rightarrow> int" where
  "rne x = (let f = \<lfloor>x\<rfloor>; r = x - of_int f in
       if r < 1 / 2 then f
       else if 1 / 2 < r then f + 1
       else if even f then f else f + 1)"

definition f32 :: "rat \<Rightarrow> rat" where
  "f32 q = (let a = \<bar>q\<bar> * 2 ^ 149;
                t = nat (bitlen \<lfloor>a\<rfloor> - 24);
                m = rne (a / 2 ^ t)
            in sgn q * of_int (m * 2 ^ t) / 2 ^ 149)"

subsection \<open>Constants of the sketch\<close>

text \<open>
  \<^verbatim>\<open>const int loadThreshold = 11.90;\<close> initialises an \<^verbatim>\<open>int\<close> from a floating literal:
  C++ converts by discarding the fractional part.
\<close>

definition float_to_int :: "rat \<Rightarrow> int" where
  "float_to_int x = (if 0 \<le> x then \<lfloor>x\<rfloor> else \<lceil>x\<rceil>)"

definition loadThreshold :: int where
  "loadThreshold = float_to_int (f32 (119 / 10))"

definition stepSize :: int where "stepSize = 1"
definition actuatorMin :: int where "actuatorMin = 47"
definition actuatorMax :: int where "actuatorMax = 71"
definition numSamples :: nat where "numSamples = 10"
definition updateInterval :: "32 word" where "updateInterval = 100"
definition maxShaftRPM :: rat where "maxShaftRPM = 1750"
definition minValidRPM :: rat where "minValidRPM = 0"
definition maxValidRPM :: rat where "maxValidRPM = 5000"

subsection \<open>State, inputs and outputs\<close>

text \<open>
  One field per global variable that some function reads or writes, with the source's
  name (\<^verbatim>\<open>rpmEstopEna\<close>, \<^verbatim>\<open>minSafeRPM\<close> and the global \<^verbatim>\<open>EPin\<close>, which the local of
  \<^verbatim>\<open>loop\<close> hides, are read nowhere). A \<^verbatim>\<open>float\<close> is the rational number it holds, an
  \<^verbatim>\<open>unsigned long\<close> a 32-bit word. The \<^verbatim>\<open>int\<close> variables are integers without a width:
  the position changes by one step per tick and is bounded after it, and the cursor stays
  below ten, so neither comes near the limits of a 16-bit \<^verbatim>\<open>int\<close>. The array
  \<^verbatim>\<open>rpmSamples\<close> is a list; in a state of the sketch it has \<open>numSamples\<close> elements and
  \<open>sampleIndex\<close> is below \<open>numSamples\<close>.
\<close>

datatype event =
    Print string
  | Println string
  | PrintlnF rat
  | PrintlnI int
  | ActuatorWrite int

record ctrl =
  estopEngaged :: bool
  actuatorPosition :: int
  lastPulseTime :: "32 word"
  pulseInterval :: "32 word"
  pulseReceived :: bool
  rpm :: rat
  rpmSamples :: "rat list"
  sampleIndex :: nat
  lastRPM :: rat
  lastUpdateTime :: "32 word"
  movingUp :: bool
  braking :: bool
  trace :: "event list"

text \<open>
  What one iteration of \<^verbatim>\<open>loop\<close> reads: \<^verbatim>\<open>millis()\<close>, \<^verbatim>\<open>digitalRead(estopPin)\<close>
  (0 for \<^verbatim>\<open>LOW\<close>, 1 for \<^verbatim>\<open>HIGH\<close>) and \<^verbatim>\<open>analogRead(loadPin)\<close> (0 to 1023).
\<close>

record inputs =
  millis :: "32 word"
  estopLevel :: int
  analog :: int

text \<open>The initialisers of the globals.\<close>

definition power_on :: ctrl where
  "power_on = \<lparr> estopEngaged = False, actuatorPosition = 56,
      lastPulseTime = 0, pulseInterval = 0, pulseReceived = False,
      rpm = 0, rpmSamples = replicate numSamples 0, sampleIndex = 0,
      lastRPM = 0, lastUpdateTime = 0, movingUp = True, braking = False,
      trace = [] \<rparr>"

definition emit :: "event list \<Rightarrow> ctrl \<Rightarrow> ctrl" where
  "emit es s = s\<lparr>trace := trace s @ es\<rparr>"

subsection \<open>The functions of the sketch\<close>

text \<open>\<^verbatim>\<open>setup\<close>, named \<open>setup_fn\<close> here; \<^verbatim>\<open>pinMode\<close>, \<^verbatim>\<open>attachInterrupt\<close>,
  \<^verbatim>\<open>actuator.attach\<close> and \<^verbatim>\<open>Serial.begin\<close> change no variable.\<close>

definition setup_fn :: "ctrl \<Rightarrow> ctrl" where
  "setup_fn s =
     (let s = s\<lparr>braking := False\<rparr>;
          s = s\<lparr>estopEngaged := False\<rparr>
      in emit [ActuatorWrite (actuatorPosition s)] s)"

text \<open>\<^verbatim>\<open>pulseISR\<close>; its argument is the value \<^verbatim>\<open>micros()\<close> returns. The subtraction is
  on \<^verbatim>\<open>unsigned long\<close> (32 bits) and wraps.\<close>

definition pulseISR :: "32 word \<Rightarrow> ctrl \<Rightarrow> ctrl" where
  "pulseISR currentTime s =
     (let s = s\<lparr>pulseInterval := currentTime - lastPulseTime s\<rparr>;
          s = s\<lparr>lastPulseTime := currentTime\<rparr>
      in s\<lparr>pulseReceived := True\<rparr>)"

text \<open>The instantaneous RPM of line 74: the interval is converted to \<^verbatim>\<open>float\<close>, then
  divided into \<^verbatim>\<open>60000000.0\<close>.\<close>

definition newRPM :: "32 word \<Rightarrow> rat" where
  "newRPM interval = f32 (60000000 / f32 (of_nat (unat interval)))"

text \<open>The summing loop of lines 82 to 85 over the ten slots of the array.\<close>

definition sum_samples :: "rat list \<Rightarrow> rat" where
  "sum_samples samples = foldl (\<lambda>sum i. f32 (sum + samples ! i)) 0 [0..<numSamples]"

definition handleRPMUpdates :: "ctrl \<Rightarrow> ctrl" where
  "handleRPMUpdates s =
     (if pulseReceived s then
        let interval = pulseInterval s;
            s = s\<lparr>pulseReceived := False\<rparr>
        in if 0 < interval then
             let new = newRPM interval
             in if minValidRPM < new \<and> new < maxValidRPM then
                  let s = s\<lparr>rpmSamples := (rpmSamples s)[sampleIndex s := new]\<rparr>;
                      s = s\<lparr>sampleIndex := (sampleIndex s + 1) mod numSamples\<rparr>;
                      s = s\<lparr>rpm := f32 (sum_samples (rpmSamples s) / of_nat numSamples)\<rparr>
                  in emit [Print ''Smoothed Shaft RPM: '', PrintlnF (rpm s)] s
                else emit [Println ''Ignored bad RPM reading''] s
           else s
      else s)"

text \<open>Lines 107 to 112 of \<^verbatim>\<open>loop\<close>: the load voltage from the ADC reading.\<close>

definition Vmeasured :: "int \<Rightarrow> rat" where
  "Vmeasured a = f32 (f32 (f32 (of_int a) / 1024) * 5)"

definition Vload :: "int \<Rightarrow> rat" where
  "Vload a = f32 (Vmeasured a / (3125 / 10000))"

definition loadConnected :: "int \<Rightarrow> bool" where
  "loadConnected a \<longleftrightarrow> Vload a < f32 (of_int loadThreshold)"

text \<open>Lines 138 to 146: the braking block.\<close>

definition braking_state :: "ctrl \<Rightarrow> ctrl" where
  "braking_state s =
     (if braking s then
        let s = emit [Println ''Braking''] s;
            s = s\<lparr>actuatorPosition := 70\<rparr>;
            s = emit [ActuatorWrite (actuatorPosition s)] s;
            s = emit [PrintlnI (actuatorPosition s)] s;
            s = s\<lparr>braking := False\<rparr>
        in s\<lparr>estopEngaged := False\<rparr>
      else s)"

text \<open>Lines 153 to 186: the three branches that choose the tentative position.\<close>

definition choose_move :: "ctrl \<Rightarrow> ctrl" where
  "choose_move s =
     (if maxShaftRPM < rpm s then
        emit [Println ''RPM too high, feathering blades.'']
          (s\<lparr>actuatorPosition := actuatorPosition s + stepSize\<rparr>)
      else if lastRPM s < rpm s then
        let s = emit [Println ''RPM GREATER THAN LAST RPM''] s
        in if movingUp s then
             emit [Println ''ACTUATOR Up'']
               (s\<lparr>actuatorPosition := actuatorPosition s + stepSize\<rparr>)
           else
             emit [Println ''RPM improving, continuing same direction.'',
                   Println ''ACTUATOR DOWN'']
               (s\<lparr>actuatorPosition := actuatorPosition s - stepSize\<rparr>)
      else
        let s = emit [Println ''RPM GOT WORSE''] s;
            s = s\<lparr>movingUp := \<not> movingUp s\<rparr>
        in if movingUp s then
             emit [Println ''actuator UP'']
               (s\<lparr>actuatorPosition := actuatorPosition s + stepSize\<rparr>)
           else
             emit [Println ''RPM dropped, reversing direction.'',
                   Println ''actuator DOWN'']
               (s\<lparr>actuatorPosition := actuatorPosition s - stepSize\<rparr>))"

text \<open>Lines 188 to 197: bound, command, log, remember the RPM.\<close>

definition bound_position :: "ctrl \<Rightarrow> ctrl" where
  "bound_position s =
     (let s = (if actuatorMax < actuatorPosition s
               then s\<lparr>actuatorPosition := actuatorMax\<rparr> else s)
      in if actuatorPosition s < actuatorMin
         then s\<lparr>actuatorPosition := actuatorMin\<rparr> else s)"

definition commit_move :: "ctrl \<Rightarrow> ctrl" where
  "commit_move s =
     (let s = bound_position s;
          s = emit [ActuatorWrite (actuatorPosition s)] s;
          s = emit [Println ''New Actuator Position: '', PrintlnI (actuatorPosition s)] s
      in s\<lparr>lastRPM := rpm s\<rparr>)"

text \<open>The value that the two tests of lines 189 and 190 leave in \<^verbatim>\<open>actuatorPosition\<close>.\<close>

definition bounded :: "int \<Rightarrow> int" where
  "bounded p =
     (if actuatorMax < p then actuatorMax else if p < actuatorMin then actuatorMin else p)"

text \<open>The condition of line 150, on \<^verbatim>\<open>unsigned long\<close> times.\<close>

definition optimizer_due :: "32 word \<Rightarrow> ctrl \<Rightarrow> bool" where
  "optimizer_due currentTime s \<longleftrightarrow>
     \<not> braking s \<and> \<not> estopEngaged s \<and> updateInterval < currentTime - lastUpdateTime s"

definition actuator_optimization :: "32 word \<Rightarrow> ctrl \<Rightarrow> ctrl" where
  "actuator_optimization currentTime s =
     (if optimizer_due currentTime s then
        commit_move (choose_move (s\<lparr>lastUpdateTime := currentTime\<rparr>))
      else s)"

text \<open>
  Lines 100 to 115 of \<^verbatim>\<open>loop\<close>: the inputs are read and printed. \<^verbatim>\<open>loadConnected\<close> is
  computed here and used nowhere: the block of lines 119 to 131 that tests it is a comment
  in the source.
\<close>

definition report_inputs :: "inputs \<Rightarrow> ctrl \<Rightarrow> ctrl" where
  "report_inputs inp s =
     (let EPin = estopLevel inp;
          s = emit [PrintlnI EPin] s;
          reading = f32 (of_int (analog inp));
          s = emit [PrintlnF reading] s;
          load_connected = loadConnected (analog inp)
      in emit [PrintlnF (Vload (analog inp)), Print ''Input Voltage: '',
               PrintlnF (Vmeasured (analog inp))] s)"

text \<open>
  One iteration of \<^verbatim>\<open>loop\<close>. The line under \<^verbatim>\<open>// --- Handle RPM updates ---\<close> is empty
  in the source: \<^verbatim>\<open>handleRPMUpdates\<close> is not called. \<^verbatim>\<open>delay(500)\<close> changes no variable.
\<close>

definition loop :: "inputs \<Rightarrow> ctrl \<Rightarrow> ctrl" where
  "loop inp s =
     (let currentTime = millis inp;
          s = report_inputs inp s;
          s = braking_state s
      in actuator_optimization currentTime s)"

text \<open>
  The condition of the block that lines 119 to 131 hold as a comment:
  \<^verbatim>\<open>!loadConnected || digitalRead(estopPin) == HIGH\<close>.
\<close>

definition should_stop :: "inputs \<Rightarrow> bool" where
  "should_stop inp \<longleftrightarrow> \<not> loadConnected (analog inp) \<or> estopLevel inp = 1"

subsection \<open>Executions\<close>

text \<open>
  What happens to the shipped sketch after \<^verbatim>\<open>setup\<close>: iterations of \<^verbatim>\<open>loop\<close>, each on the
  inputs it reads, and pulse interrupts, each at the time \<^verbatim>\<open>micros()\<close> returns. The
  interrupt handler writes only \<^verbatim>\<open>pulseInterval\<close>, \<^verbatim>\<open>lastPulseTime\<close> and
  \<^verbatim>\<open>pulseReceived\<close>, which \<^verbatim>\<open>loop\<close> never reads, so an interrupt during an iteration
  has the effect of one just before or after it. \<open>run\<close> is the state after a list of
  such activities, performed in order.
\<close>

datatype activity = Iteration inputs | Pulse "32 word"

fun perform :: "activity \<Rightarrow> ctrl \<Rightarrow> ctrl" where
  "perform (Iteration inp) s = loop inp s"
| "perform (Pulse now) s = pulseISR now s"

definition run :: "activity list \<Rightarrow> ctrl" where
  "run acts = fold perform acts (setup_fn power_on)"

text \<open>
  A pulse that arrives \<open>i\<close> microseconds after the previous one and is then consumed by
  \<^verbatim>\<open>handleRPMUpdates\<close>.
\<close>

definition steady_pulse :: "32 word \<Rightarrow> ctrl \<Rightarrow> ctrl" where
  "steady_pulse i s = handleRPMUpdates (pulseISR (lastPulseTime s + i) s)"

text \<open>The state after \<^verbatim>\<open>setup\<close> and \<open>n\<close> pulses 34286 microseconds apart, each consumed.\<close>

definition steady_run :: "nat \<Rightarrow> ctrl" where
  "steady_run n = (steady_pulse 34286 ^^ n) (setup_fn power_on)"

section \<open>Rounding to single precision\<close>

lemma rne_of_int: "rne (of_int n) = n"
  by (simp add: rne_def)

lemma rne_ge_int: "of_int n \<le> x \<Longrightarrow> n \<le> rne x"
  unfolding rne_def Let_def by (auto simp: le_floor_iff; linarith)

lemma rne_le_int: "x \<le> of_int n \<Longrightarrow> rne x \<le> n"
proof -
  assume h: "x \<le> of_int n"
  have fl: "\<lfloor>x\<rfloor> \<le> n" using h by (simp add: floor_le_iff)
  show ?thesis
  proof (cases "\<lfloor>x\<rfloor> = n")
    case True
    then have "x = of_int n" using h by linarith
    then show ?thesis by (simp add: rne_of_int)
  next
    case False
    then have "\<lfloor>x\<rfloor> + 1 \<le> n" using fl by linarith
    then show ?thesis unfolding rne_def Let_def by auto
  qed
qed

lemma rne_mono: "x \<le> y \<Longrightarrow> rne x \<le> rne y"
proof -
  assume xy: "x \<le> y"
  have fxy: "\<lfloor>x\<rfloor> \<le> \<lfloor>y\<rfloor>" using xy by (rule floor_mono)
  show ?thesis
  proof (cases "\<lfloor>x\<rfloor> = \<lfloor>y\<rfloor>")
    case True
    then have "x - of_int \<lfloor>x\<rfloor> \<le> y - of_int \<lfloor>y\<rfloor>" using xy by simp
    then show ?thesis using True unfolding rne_def Let_def by auto
  next
    case False
    then have "\<lfloor>x\<rfloor> + 1 \<le> \<lfloor>y\<rfloor>" using fxy by linarith
    moreover have "rne x \<le> \<lfloor>x\<rfloor> + 1" unfolding rne_def Let_def by auto
    moreover have "\<lfloor>y\<rfloor> \<le> rne y" unfolding rne_def Let_def by auto
    ultimately show ?thesis by linarith
  qed
qed

lemma rne_eqI:
  assumes "\<bar>x - of_int m\<bar> < 1 / 2"
  shows "rne x = m"
proof -
  have "\<lfloor>x\<rfloor> = m \<or> \<lfloor>x\<rfloor> = m - 1" using assms by linarith
  then show ?thesis
  proof
    assume f: "\<lfloor>x\<rfloor> = m"
    then have "x - of_int \<lfloor>x\<rfloor> < 1 / 2" using assms by linarith
    then show ?thesis using f by (simp add: rne_def Let_def)
  next
    assume f: "\<lfloor>x\<rfloor> = m - 1"
    then have "1 / 2 < x - of_int \<lfloor>x\<rfloor>" using assms by (simp; linarith)
    then show ?thesis using f by (simp add: rne_def Let_def)
  qed
qed

lemma f32_zero: "f32 0 = 0"
  by (simp add: f32_def)

lemma f32_minus: "f32 (- q) = - f32 q"
  by (simp add: f32_def Let_def sgn_minus)

lemma f32_scaled:
  assumes q: "0 \<le> q" and hi: "q * 2 ^ 149 < 2 ^ (t + 24)"
    and lo: "t = 0 \<or> 2 ^ (t + 23) \<le> q * 2 ^ 149"
  shows "f32 q = of_int (rne (q * 2 ^ 149 / 2 ^ t) * 2 ^ t) / 2 ^ 149"
proof (cases "q = 0")
  case True
  then show ?thesis using rne_of_int [of 0] by (simp add: f32_def)
next
  case False
  then have pos: "0 < q" using q by simp
  define a where "a = q * 2 ^ 149"
  have "\<lfloor>a\<rfloor> < 2 ^ (t + 24)" using hi unfolding a_def by (simp only: floor_less_iff of_int_power of_int_numeral)
  then have up: "bitlen \<lfloor>a\<rfloor> \<le> int t + 24"
    using bitlen_le_iff_power [of "\<lfloor>a\<rfloor>" "int t + 24"] by (simp add: nat_add_distrib)
  have "nat (bitlen \<lfloor>a\<rfloor> - 24) = t"
  proof (cases "t = 0")
    case True
    then show ?thesis using up by simp
  next
    case False
    then have "2 ^ (t + 23) \<le> a" using lo unfolding a_def by simp
    then have "2 ^ (t + 23) \<le> \<lfloor>a\<rfloor>" by (simp only: le_floor_iff of_int_power of_int_numeral)
    moreover have "nat (int t + 24) - 1 = t + 23" by simp
    ultimately have "int t + 24 \<le> bitlen \<lfloor>a\<rfloor>"
      using bitlen_ge_iff_power [of "int t + 24" "\<lfloor>a\<rfloor>"] by simp
    then show ?thesis using up by simp
  qed
  moreover have "\<bar>q\<bar> = q" "sgn q = 1" using pos by simp_all
  ultimately show ?thesis by (simp only: f32_def Let_def a_def [symmetric] mult_1)
qed

lemma f32_up:
  assumes "0 < q" "k \<le> 149" "2 ^ 23 \<le> q * 2 ^ k" "q * 2 ^ k < 2 ^ 24"
  shows "f32 q = of_int (rne (q * 2 ^ k)) / 2 ^ k"
proof -
  obtain t where t: "149 = k + t" using assms(2) by (metis le_Suc_ex)
  have p: "(2::rat) ^ 149 = 2 ^ k * 2 ^ t" by (simp only: t power_add)
  have "q * 2 ^ k * 2 ^ t < 2 ^ 24 * 2 ^ t"
    using assms(4) by (rule mult_strict_right_mono) simp
  then have hi: "q * 2 ^ 149 < 2 ^ (t + 24)" by (simp only: p power_add mult_ac)
  have "2 ^ 23 * 2 ^ t \<le> q * 2 ^ k * 2 ^ t"
    using assms(3) by (rule mult_right_mono) simp
  then have lo: "2 ^ (t + 23) \<le> q * 2 ^ 149" by (simp only: p power_add mult_ac)
  have "f32 q = of_int (rne (q * 2 ^ 149 / 2 ^ t) * 2 ^ t) / 2 ^ 149"
    using f32_scaled [of q t] assms(1) hi lo by simp
  also have "q * 2 ^ 149 / 2 ^ t = q * 2 ^ k" by (simp only: p) simp
  also have "of_int (rne (q * 2 ^ k) * 2 ^ t) / (2 ^ 149 :: rat) = of_int (rne (q * 2 ^ k)) / 2 ^ k"
    by (simp only: p) simp
  finally show ?thesis .
qed

lemma f32_down:
  assumes "2 ^ 23 \<le> q / 2 ^ k" "q / 2 ^ k < 2 ^ 24"
  shows "f32 q = of_int (rne (q / 2 ^ k)) * 2 ^ k"
proof -
  have "(0::rat) < 2 ^ 23" by simp
  then have "0 < q / 2 ^ k" using assms(1) by (rule less_le_trans)
  then have q: "0 < q" by (simp add: zero_less_divide_iff)
  define t where "t = 149 + k"
  have e: "q * 2 ^ 149 = q / 2 ^ k * 2 ^ t" by (simp add: t_def power_add)
  have "q / 2 ^ k * 2 ^ t < 2 ^ 24 * 2 ^ t"
    using assms(2) by (rule mult_strict_right_mono) simp
  then have hi: "q * 2 ^ 149 < 2 ^ (t + 24)" by (simp only: e power_add mult_ac)
  have "2 ^ 23 * 2 ^ t \<le> q / 2 ^ k * 2 ^ t"
    using assms(1) by (rule mult_right_mono) simp
  then have lo: "2 ^ (t + 23) \<le> q * 2 ^ 149" by (simp only: e power_add mult_ac)
  have "f32 q = of_int (rne (q * 2 ^ 149 / 2 ^ t) * 2 ^ t) / 2 ^ 149"
    using f32_scaled [of q t] q hi lo by simp
  also have "q * 2 ^ 149 / 2 ^ t = q / 2 ^ k" by (simp only: e) simp
  also have "of_int (rne (q / 2 ^ k) * 2 ^ t) / (2 ^ 149 :: rat) = of_int (rne (q / 2 ^ k)) * 2 ^ k"
    by (simp add: t_def power_add)
  finally show ?thesis .
qed

lemma f32_upI:
  assumes "0 < q" "k \<le> 149" "2 ^ 23 \<le> q * 2 ^ k" "q * 2 ^ k < 2 ^ 24"
    and "\<bar>q * 2 ^ k - of_int m\<bar> < 1 / 2"
  shows "f32 q = of_int m / 2 ^ k"
  using f32_up [OF assms(1-4)] rne_eqI [OF assms(5)] by simp

lemma f32_downI:
  assumes "2 ^ 23 \<le> q / 2 ^ k" "q / 2 ^ k < 2 ^ 24"
    and "\<bar>q / 2 ^ k - of_int m\<bar> < 1 / 2"
  shows "f32 q = of_int m * 2 ^ k"
  using f32_down [OF assms(1-2)] rne_eqI [OF assms(3)] by simp


lemma bitlen_mono: "x \<le> y \<Longrightarrow> bitlen x \<le> bitlen y"
proof -
  assume xy: "x \<le> y"
  have "y < 2 ^ nat (bitlen y)"
    using bitlen_le_iff_power [of y "bitlen y"] by simp
  then have "x < 2 ^ nat (bitlen y)" using xy by linarith
  then show ?thesis
    using bitlen_le_iff_power [of x "bitlen y"] bitlen_nonneg [of y] by simp
qed

text \<open>The scaled significand and the shift of a non-negative value.\<close>

lemma f32_shift_bounds:
  fixes a :: rat
  assumes "0 \<le> a"
  defines "t \<equiv> nat (bitlen \<lfloor>a\<rfloor> - 24)"
  shows "a / 2 ^ t < 2 ^ 24" and "0 < t \<Longrightarrow> 2 ^ 23 \<le> a / 2 ^ t"
proof -
  have "\<lfloor>a\<rfloor> < 2 ^ nat (bitlen \<lfloor>a\<rfloor>)"
    using bitlen_le_iff_power [of "\<lfloor>a\<rfloor>" "bitlen \<lfloor>a\<rfloor>"] by simp
  moreover have "nat (bitlen \<lfloor>a\<rfloor>) \<le> t + 24" unfolding t_def by simp
  then have "(2::int) ^ nat (bitlen \<lfloor>a\<rfloor>) \<le> 2 ^ (t + 24)"
    by (rule power_increasing) simp
  ultimately have "\<lfloor>a\<rfloor> < 2 ^ (t + 24)" by linarith
  then have "a < 2 ^ (t + 24)" by (simp only: floor_less_iff of_int_power of_int_numeral)
  then have "a < 2 ^ 24 * 2 ^ t" by (simp only: power_add mult_ac)
  then show "a / 2 ^ t < 2 ^ 24" by (simp add: divide_less_eq)
next
  assume tpos: "0 < t"
  then have bl: "bitlen \<lfloor>a\<rfloor> = int t + 24" unfolding t_def by simp
  have "nat (int t + 24) - 1 = t + 23" by simp
  then have "2 ^ (t + 23) \<le> \<lfloor>a\<rfloor>"
    using bitlen_ge_iff_power [of "int t + 24" "\<lfloor>a\<rfloor>"] bl by simp
  then have "2 ^ (t + 23) \<le> a" by (simp only: le_floor_iff of_int_power of_int_numeral)
  then have "2 ^ 23 * 2 ^ t \<le> a" by (simp only: power_add mult_ac)
  then show "2 ^ 23 \<le> a / 2 ^ t" by (simp add: le_divide_eq)
qed

lemma f32_nonneg: "0 \<le> q \<Longrightarrow> 0 \<le> f32 q"
proof -
  assume q: "0 \<le> q"
  have "0 \<le> rne (\<bar>q\<bar> * 2 ^ 149 / 2 ^ nat (bitlen \<lfloor>\<bar>q\<bar> * 2 ^ 149\<rfloor> - 24))"
    by (rule rne_ge_int) simp
  then show ?thesis using q unfolding f32_def Let_def
    by (simp add: sgn_if)
qed

lemma f32_mono_nonneg:
  assumes "0 \<le> x" "x \<le> y"
  shows "f32 x \<le> f32 y"
proof -
  define a where "a = x * 2 ^ 149"
  define b where "b = y * 2 ^ 149"
  define ta where "ta = nat (bitlen \<lfloor>a\<rfloor> - 24)"
  define tb where "tb = nat (bitlen \<lfloor>b\<rfloor> - 24)"
  have a0: "0 \<le> a" and ab: "a \<le> b" using assms by (simp_all add: a_def b_def)
  then have b0: "0 \<le> b" by simp
  have y0: "0 \<le> y" using assms by simp
  have fx: "f32 x = sgn x * of_int (rne (a / 2 ^ ta) * 2 ^ ta) / 2 ^ 149"
    using assms(1) by (simp only: f32_def Let_def a_def ta_def abs_of_nonneg)
  have fy: "f32 y = sgn y * of_int (rne (b / 2 ^ tb) * 2 ^ tb) / 2 ^ 149"
    using y0 by (simp only: f32_def Let_def b_def tb_def abs_of_nonneg)
  show ?thesis
  proof (cases "x = 0")
    case True
    then show ?thesis using f32_nonneg [OF y0] by (simp add: f32_zero)
  next
    case False
    then have sx: "sgn x = 1" and sy: "sgn y = 1" using assms by simp_all
    have "\<lfloor>a\<rfloor> \<le> \<lfloor>b\<rfloor>" using ab by (rule floor_mono)
    then have "bitlen \<lfloor>a\<rfloor> \<le> bitlen \<lfloor>b\<rfloor>" by (rule bitlen_mono)
    then have t: "ta \<le> tb" unfolding ta_def tb_def by simp
    have core: "rne (a / 2 ^ ta) * 2 ^ ta \<le> rne (b / 2 ^ tb) * 2 ^ tb"
    proof (cases "ta = tb")
      case True
      have "a / 2 ^ tb \<le> b / 2 ^ tb" using ab by (simp add: divide_right_mono)
      then have "rne (a / 2 ^ tb) \<le> rne (b / 2 ^ tb)" by (rule rne_mono)
      then show ?thesis unfolding True by simp
    next
      case False
      then have lt: "ta < tb" using t by simp
      then have tb0: "0 < tb" by simp
      have "a / 2 ^ ta \<le> of_int (2 ^ 24)"
        using f32_shift_bounds(1) [OF a0] unfolding ta_def by simp
      then have "rne (a / 2 ^ ta) \<le> 2 ^ 24" by (rule rne_le_int)
      then have "rne (a / 2 ^ ta) * 2 ^ ta \<le> 2 ^ 24 * 2 ^ ta" by simp
      also have "\<dots> = (2::int) ^ (ta + 24)" by (simp only: power_add mult_ac)
      also have "\<dots> \<le> 2 ^ (tb + 23)" using lt by (intro power_increasing) simp_all
      also have "\<dots> = 2 ^ 23 * 2 ^ tb" by (simp only: power_add mult_ac)
      also have "\<dots> \<le> rne (b / 2 ^ tb) * 2 ^ tb"
      proof -
        have "of_int (2 ^ 23) \<le> b / 2 ^ tb"
          using f32_shift_bounds(2) [OF b0] tb0 unfolding tb_def by simp
        then have "2 ^ 23 \<le> rne (b / 2 ^ tb)" by (rule rne_ge_int)
        then show ?thesis by simp
      qed
      finally show ?thesis .
    qed
    then have "(of_int (rne (a / 2 ^ ta) * 2 ^ ta) :: rat) \<le> of_int (rne (b / 2 ^ tb) * 2 ^ tb)"
      by (simp only: of_int_le_iff)
    then show ?thesis unfolding fx fy sx sy by (simp add: divide_right_mono)
  qed
qed

lemma f32_mono: "x \<le> y \<Longrightarrow> f32 x \<le> f32 y"
proof -
  assume xy: "x \<le> y"
  consider "0 \<le> x" | "x < 0" "0 \<le> y" | "x < 0" "y < 0" by linarith
  then show ?thesis
  proof cases
    case 1
    then show ?thesis using xy by (rule f32_mono_nonneg)
  next
    case 2
    have "0 \<le> f32 (- x)" using 2(1) by (intro f32_nonneg) simp
    then have "f32 x \<le> 0" by (simp add: f32_minus)
    also have "0 \<le> f32 y" using 2(2) by (rule f32_nonneg)
    finally show ?thesis .
  next
    case 3
    have "f32 (- y) \<le> f32 (- x)" using 3 xy by (intro f32_mono_nonneg) simp_all
    then show ?thesis by (simp add: f32_minus)
  qed
qed

subsection \<open>Values that are not rounded\<close>

lemma f32_dyadic:
  assumes n: "0 < n" "n < 2 ^ 24" and k: "k \<le> 125"
  shows "f32 (of_int n / 2 ^ k) = of_int n / 2 ^ k"
proof -
  define L where "L = nat (bitlen n)"
  have bl: "1 \<le> bitlen n" using n(1) bitlen_ge_iff_power [of 1 n] by simp
  have "bitlen n \<le> 24" using n(2) bitlen_le_iff_power [of n 24] by simp
  then have L: "1 \<le> L" "L \<le> 24" and Lb: "bitlen n = int L" using bl by (simp_all add: L_def)
  have hi: "n < 2 ^ L" using bitlen_le_iff_power [of n "int L"] Lb by simp
  have "nat (int L) - 1 = L - 1" by simp
  then have lo: "2 ^ (L - 1) \<le> n" using bitlen_ge_iff_power [of "int L" n] Lb L by simp
  define j where "j = 24 - L"
  have jL: "L + j = 24" "L - 1 + j = 23" using L by (simp_all add: j_def)
  let ?q = "of_int n / 2 ^ k :: rat"
  have e: "?q * 2 ^ (k + j) = of_int (n * 2 ^ j)" by (simp add: power_add)
  have "n * 2 ^ j < 2 ^ L * 2 ^ j" using hi by simp
  then have b1: "n * 2 ^ j < 2 ^ 24" by (simp only: power_add [symmetric] jL)
  have "2 ^ (L - 1) * 2 ^ j \<le> n * 2 ^ j" using lo by simp
  then have b2: "2 ^ 23 \<le> n * 2 ^ j" by (simp only: power_add [symmetric] jL)
  have q0: "0 < ?q" using n(1) by simp
  have kj: "k + j \<le> 149" using k L by (simp add: j_def)
  have c1: "2 ^ 23 \<le> ?q * 2 ^ (k + j)" unfolding e using b2
    by (metis of_int_le_iff of_int_numeral of_int_power)
  have c2: "?q * 2 ^ (k + j) < 2 ^ 24" unfolding e using b1
    by (metis of_int_less_iff of_int_numeral of_int_power)
  have "f32 ?q = of_int (rne (?q * 2 ^ (k + j))) / 2 ^ (k + j)"
    using q0 kj c1 c2 by (rule f32_up)
  also have "\<dots> = of_int (n * 2 ^ j) / 2 ^ (k + j)" unfolding e rne_of_int ..
  also have "\<dots> = ?q" by (simp add: power_add)
  finally show ?thesis .
qed

lemma f32_of_int: "0 \<le> n \<Longrightarrow> n < 2 ^ 24 \<Longrightarrow> f32 (of_int n) = of_int n"
  using f32_dyadic [of n 0] f32_zero by (cases "n = 0") simp_all

lemma Vload_exact:
  assumes "0 \<le> a" "a \<le> 1023"
  shows "Vload a = of_int a / 64"
proof (cases "a = 0")
  case True
  then show ?thesis by (simp add: Vload_def Vmeasured_def f32_zero)
next
  case False
  then have a: "0 < a" "a < 2 ^ 24" "0 < 5 * a" "5 * a < 2 ^ 24" using assms by simp_all
  have 1: "f32 (of_int a) = of_int a" using a f32_of_int by simp
  have 2: "f32 (of_int a / 1024) = of_int a / 1024" using f32_dyadic [of a 10] a by simp
  have e3: "(of_int (5 * a) / 2 ^ 10 :: rat) = of_int a / 1024 * 5" by simp
  have "f32 (of_int (5 * a) / 2 ^ 10) = of_int (5 * a) / 2 ^ 10"
    using a by (intro f32_dyadic) simp_all
  then have 3: "f32 (of_int a / 1024 * 5) = of_int a / 1024 * 5"
    by (simp only: e3)
  have 4: "f32 (of_int a / 64) = of_int a / 64" using f32_dyadic [of a 6] a by simp
  have "of_int a / 1024 * 5 / (3125 / 10000) = (of_int a / 64 :: rat)" by simp
  then show ?thesis by (simp only: Vload_def Vmeasured_def 1 2 3 4)
qed

lemma f32_literal_1190: "f32 (119 / 10) = 6239027 / 524288"
  using f32_upI [of "119 / 10" 20 12478054] by simp

lemma loadThreshold_value: "loadThreshold = 11"
proof -
  have "\<lfloor>6239027 / 524288 :: rat\<rfloor> = 11" by (rule floor_unique) simp_all
  then show ?thesis by (simp add: loadThreshold_def f32_literal_1190 float_to_int_def)
qed

lemma loadConnected_iff:
  assumes "0 \<le> a" "a \<le> 1023"
  shows "loadConnected a \<longleftrightarrow> a < 704"
proof -
  have "f32 (of_int 11) = of_int 11" by (rule f32_of_int) simp_all
  then have "f32 11 = 11" by simp
  then show ?thesis
    using Vload_exact [OF assms] by (simp add: loadConnected_def loadThreshold_value) linarith
qed

subsection \<open>The instantaneous RPM against the validity bounds\<close>

lemma f32_fix_1: "f32 1 = 1"
  using f32_of_int [of 1] by simp

lemma f32_fix_12000: "f32 12000 = 12000"
  using f32_of_int [of 12000] by simp

lemma f32_fix_12001: "f32 12001 = 12001"
  using f32_of_int [of 12001] by simp

lemma f32_fix_5000: "f32 5000 = 5000"
  using f32_of_int [of 5000] by simp

lemma f32_fix_2p32: "f32 4294967296 = 4294967296"
  using f32_downI [of 4294967296 9 8388608] by simp

lemma f32_slowest: "f32 (234375 / 16777216) = 234375 / 16777216"
  using f32_dyadic [of 234375 24] by simp

lemma f32_fastest_valid: "f32 (60000000 / 12001) = 10239147 / 2048"
  using f32_upI [of "60000000 / 12001" 11 10239147] by simp

lemma unat_interval_bounds:
  fixes i :: "32 word"
  assumes "0 < i"
  shows "1 \<le> unat i" and "(of_nat (unat i) :: rat) \<le> 4294967296"
proof -
  show "1 \<le> unat i" using assms by (simp add: word_less_nat_alt Suc_le_eq)
  have "unat i < 2 ^ 32" using unsigned_less [of i, where 'a = nat] by simp
  then have "unat i \<le> 4294967296" by simp
  then have "(of_nat (unat i) :: rat) \<le> of_nat 4294967296" by (simp only: of_nat_le_iff)
  then show "(of_nat (unat i) :: rat) \<le> 4294967296" by simp
qed

lemma newRPM_slow:
  fixes i :: "32 word"
  assumes "12001 \<le> unat i"
  shows "234375 / 16777216 \<le> newRPM i" and "newRPM i \<le> 10239147 / 2048"
proof -
  let ?n = "of_nat (unat i) :: rat"
  have "0 < unat i" using assms by simp
  then have pos: "0 < i" by (simp add: word_less_nat_alt)
  have "(of_nat 12001 :: rat) \<le> ?n" using assms by (simp only: of_nat_le_iff)
  then have n1: "12001 \<le> ?n" by simp
  have n2: "?n \<le> 4294967296" using unat_interval_bounds(2) [OF pos] .
  have x1: "12001 \<le> f32 ?n" using f32_mono [OF n1] by (simp add: f32_fix_12001)
  have x2: "f32 ?n \<le> 4294967296" using f32_mono [OF n2] by (simp add: f32_fix_2p32)
  have x0: "0 < f32 ?n" using x1 by linarith
  have "60000000 / f32 ?n \<le> 60000000 / 12001"
    using x1 by (intro divide_left_mono) simp_all
  then show "newRPM i \<le> 10239147 / 2048"
    using f32_mono [of "60000000 / f32 ?n" "60000000 / 12001"]
    by (simp add: newRPM_def f32_fastest_valid)
  have "60000000 / 4294967296 \<le> 60000000 / f32 ?n"
    using x2 x0 by (intro divide_left_mono) simp_all
  then have "234375 / 16777216 \<le> 60000000 / f32 ?n" by simp
  then have "f32 (234375 / 16777216) \<le> f32 (60000000 / f32 ?n)" by (rule f32_mono)
  then show "234375 / 16777216 \<le> newRPM i" by (simp only: newRPM_def f32_slowest)
qed

lemma newRPM_fast:
  fixes i :: "32 word"
  assumes "0 < i" "unat i \<le> 12000"
  shows "5000 \<le> newRPM i"
proof -
  let ?n = "of_nat (unat i) :: rat"
  have "(of_nat 1 :: rat) \<le> ?n" using unat_interval_bounds(1) [OF assms(1)]
    by (simp only: of_nat_le_iff)
  then have n1: "1 \<le> ?n" by simp
  have "?n \<le> of_nat 12000" using assms(2) by (simp only: of_nat_le_iff)
  then have n2: "?n \<le> 12000" by simp
  have x1: "1 \<le> f32 ?n" using f32_mono [OF n1] by (simp add: f32_fix_1)
  have x2: "f32 ?n \<le> 12000" using f32_mono [OF n2] by (simp add: f32_fix_12000)
  have x0: "0 < f32 ?n" using x1 by linarith
  have "60000000 / 12000 \<le> 60000000 / f32 ?n"
    using x2 x0 by (intro divide_left_mono) simp_all
  then have "5000 \<le> 60000000 / f32 ?n" by simp
  then show ?thesis using f32_mono [of 5000 "60000000 / f32 ?n"]
    by (simp add: newRPM_def f32_fix_5000)
qed

lemma newRPM_valid_iff:
  fixes i :: "32 word"
  assumes "0 < i"
  shows "minValidRPM < newRPM i \<and> newRPM i < maxValidRPM \<longleftrightarrow>
     minValidRPM < 60000000 / of_nat (unat i) \<and> 60000000 / of_nat (unat i) < maxValidRPM"
proof (cases "unat i \<le> 12000")
  case True
  have "0 < unat i" using unat_interval_bounds(1) [OF assms] by linarith
  then have n0: "(0::rat) < of_nat (unat i)" by (simp only: of_nat_0_less_iff)
  have "(of_nat (unat i) :: rat) \<le> of_nat 12000" using True by (simp only: of_nat_le_iff)
  then have "(of_nat (unat i) :: rat) \<le> 12000" by simp
  then have "60000000 / 12000 \<le> 60000000 / (of_nat (unat i) :: rat)"
    using n0 by (intro divide_left_mono) simp_all
  then have "\<not> 60000000 / (of_nat (unat i) :: rat) < 5000" by simp
  moreover have "\<not> newRPM i < 5000" using newRPM_fast [OF assms True] by simp
  ultimately show ?thesis by (simp add: maxValidRPM_def)
next
  case False
  then have h: "12001 \<le> unat i" by simp
  then have "(of_nat 12001 :: rat) \<le> of_nat (unat i)" by (simp only: of_nat_le_iff)
  then have n1: "(12001 :: rat) \<le> of_nat (unat i)" by simp
  then have "60000000 / (of_nat (unat i) :: rat) \<le> 60000000 / 12001"
    by (intro divide_left_mono) simp_all
  then have "60000000 / (of_nat (unat i) :: rat) < 5000" by simp
  moreover have "0 < 60000000 / (of_nat (unat i) :: rat)" using n1 by simp
  moreover have "0 < newRPM i" "newRPM i < 5000" using newRPM_slow [OF h] by simp_all
  ultimately show ?thesis by (simp add: maxValidRPM_def minValidRPM_def)
qed


subsection \<open>The size of the rounding error\<close>

lemma rne_error: "\<bar>of_int (rne x) - x\<bar> \<le> 1 / 2"
proof -
  have fl: "of_int \<lfloor>x\<rfloor> \<le> x" "x < of_int \<lfloor>x\<rfloor> + 1" by linarith+
  consider "x - of_int \<lfloor>x\<rfloor> < 1 / 2" | "1 / 2 < x - of_int \<lfloor>x\<rfloor>"
    | "x - of_int \<lfloor>x\<rfloor> = 1 / 2" by linarith
  then show ?thesis
  proof cases
    case 1
    then have "rne x = \<lfloor>x\<rfloor>" by (simp add: rne_def Let_def)
    then show ?thesis using 1 fl by simp
  next
    case 2
    then have "rne x = \<lfloor>x\<rfloor> + 1" by (simp add: rne_def Let_def)
    then show ?thesis using 2 fl by simp
  next
    case 3
    then have "rne x = \<lfloor>x\<rfloor> \<or> rne x = \<lfloor>x\<rfloor> + 1" by (simp add: rne_def Let_def)
    then show ?thesis using 3 by auto
  qed
qed

text \<open>Rounding a value in the normal range changes it by at most one part in \<open>2 ^ 24\<close>.\<close>

lemma f32_relative_error:
  assumes "2 ^ 23 \<le> q * 2 ^ 149"
  shows "\<bar>f32 q - q\<bar> \<le> q / 2 ^ 24"
proof -
  define a where "a = q * 2 ^ 149"
  define t where "t = nat (bitlen \<lfloor>a\<rfloor> - 24)"
  define z where "z = a / 2 ^ t"
  define c :: rat where "c = 2 ^ t / 2 ^ 149"
  have c0: "0 \<le> c" by (simp add: c_def)
  have "(0::rat) < 2 ^ 23" by simp
  then have a0: "0 < a" using assms unfolding a_def by (rule less_le_trans)
  then have q0: "0 < q" unfolding a_def by (simp add: zero_less_mult_iff)
  have z1: "2 ^ 23 \<le> z"
  proof (cases "t = 0")
    case True
    then show ?thesis using assms by (simp add: z_def a_def)
  next
    case False
    then have "0 < t" by simp
    then show ?thesis using f32_shift_bounds(2) [of a] a0 unfolding z_def t_def by simp
  qed
  have fq: "f32 q = of_int (rne z) * c"
    using q0 by (simp add: f32_def Let_def a_def t_def z_def c_def)
  have qz: "q = z * c" by (simp add: z_def a_def c_def)
  have "f32 q - q = of_int (rne z) * c - z * c" using fq qz by simp
  also have "\<dots> = (of_int (rne z) - z) * c" by (simp add: algebra_simps)
  finally have "f32 q - q = (of_int (rne z) - z) * c" .
  then have "\<bar>f32 q - q\<bar> = \<bar>of_int (rne z) - z\<bar> * c"
    using c0 by (simp add: abs_mult)
  also have "\<dots> \<le> 1 / 2 * c"
    using rne_error [of z] c0 by (intro mult_right_mono)
  also have "\<dots> \<le> z / 2 ^ 24 * c"
    using z1 c0 by (intro mult_right_mono) simp_all
  also have "\<dots> = z * c / 2 ^ 24" by simp
  also have "\<dots> = q / 2 ^ 24" using qz by simp
  finally show ?thesis .
qed

text \<open>The instantaneous RPM is the exact quotient up to two roundings.\<close>

lemma newRPM_error:
  fixes i :: "32 word"
  assumes "0 < i"
  shows "\<bar>newRPM i - 60000000 / of_nat (unat i)\<bar> \<le> 60000000 / of_nat (unat i) / 2 ^ 22"
proof -
  define n :: rat where "n = of_nat (unat i)"
  define x where "x = f32 n"
  define y where "y = 60000000 / x"
  define Q where "Q = 60000000 / n"
  define e :: rat where "e = 1 / 2 ^ 24"
  have e: "0 < e" "e \<le> 1 / 16777216" by (simp_all add: e_def)
  have "(of_nat 1 :: rat) \<le> of_nat (unat i)"
    using unat_interval_bounds(1) [OF assms] by (simp only: of_nat_le_iff)
  then have n1: "1 \<le> n" by (simp add: n_def)
  have n2: "n \<le> 4294967296" using unat_interval_bounds(2) [OF assms] by (simp add: n_def)
  have "2 ^ 23 \<le> n * 2 ^ 149" using n1 by simp
  then have "\<bar>x - n\<bar> \<le> n / 2 ^ 24" unfolding x_def by (rule f32_relative_error)
  then have xn: "\<bar>x - n\<bar> \<le> n * e" by (simp add: e_def)
  have x1: "1 \<le> x" using f32_mono [OF n1] by (simp add: x_def f32_fix_1)
  have x2: "x \<le> 4294967296" using f32_mono [OF n2] by (simp add: x_def f32_fix_2p32)
  have y0: "0 < y" using x1 by (simp add: y_def)
  have "60000000 / 4294967296 \<le> 60000000 / x" using x1 x2 by (intro divide_left_mono) simp_all
  then have "234375 / 16777216 \<le> y" by (simp add: y_def)
  then have "234375 / 16777216 * 2 ^ 149 \<le> y * 2 ^ 149" by simp
  then have "2 ^ 23 \<le> y * 2 ^ 149" by simp
  then have "\<bar>f32 y - y\<bar> \<le> y / 2 ^ 24" by (rule f32_relative_error)
  then have ry: "\<bar>f32 y - y\<bar> \<le> y * e" by (simp add: e_def)
  have Q0: "0 < Q" using n1 by (simp add: Q_def)
  define d where "d = n - x"
  have xn0: "0 < x * n" using x1 n1 by simp
  have "y - Q = 60000000 * d / (x * n)"
    using x1 n1 by (simp add: y_def Q_def d_def field_simps)
  then have "\<bar>y - Q\<bar> = \<bar>60000000 * d\<bar> / \<bar>x * n\<bar>" by (simp only: abs_divide)
  also have "\<dots> = 60000000 * \<bar>d\<bar> / (x * n)"
    using x1 n1 by (simp add: abs_mult)
  also have "\<dots> \<le> 60000000 * (n * e) / (x * n)"
    using xn xn0 by (intro divide_right_mono mult_left_mono) (simp_all add: d_def abs_minus_commute)
  also have "\<dots> = y * e" using x1 n1 by (simp add: y_def)
  finally have yQ: "\<bar>y - Q\<bar> \<le> y * e" .
  then have "y * (1 - e) \<le> Q" by (simp add: algebra_simps abs_le_iff)
  moreover have "1 / 2 \<le> 1 - e" using e by simp
  ultimately have "y * (1 / 2) \<le> Q"
    using y0 by (meson mult_left_mono less_imp_le order_trans)
  then have y2: "y \<le> 2 * Q" by simp
  have "(1 - e) * y \<le> Q" using yQ by (simp add: algebra_simps abs_le_iff)
  have "\<bar>f32 y - Q\<bar> \<le> \<bar>f32 y - y\<bar> + \<bar>y - Q\<bar>" by simp
  also have "\<dots> \<le> y * e + y * e" using ry yQ by (rule add_mono)
  also have "\<dots> = y * (2 * e)" by simp
  also have "\<dots> \<le> 2 * Q * (2 * e)" using y2 e by (intro mult_right_mono) simp_all
  also have "\<dots> = Q / 2 ^ 22" by (simp add: e_def)
  finally show ?thesis by (simp add: newRPM_def x_def y_def Q_def n_def)
qed


section \<open>What each block of the sketch changes\<close>

lemmas const_defs = stepSize_def actuatorMin_def actuatorMax_def updateInterval_def
  maxShaftRPM_def numSamples_def

text \<open>What each block changes, field by field.\<close>

lemma emit_fields:
  "estopEngaged (emit es s) = estopEngaged s"
  "actuatorPosition (emit es s) = actuatorPosition s"
  "lastPulseTime (emit es s) = lastPulseTime s"
  "pulseInterval (emit es s) = pulseInterval s"
  "pulseReceived (emit es s) = pulseReceived s"
  "rpm (emit es s) = rpm s"
  "rpmSamples (emit es s) = rpmSamples s"
  "sampleIndex (emit es s) = sampleIndex s"
  "lastRPM (emit es s) = lastRPM s"
  "lastUpdateTime (emit es s) = lastUpdateTime s"
  "movingUp (emit es s) = movingUp s"
  "braking (emit es s) = braking s"
  "trace (emit es s) = trace s @ es"
  by (simp_all add: emit_def)

lemma report_inputs_fields:
  "estopEngaged (report_inputs inp s) = estopEngaged s"
  "actuatorPosition (report_inputs inp s) = actuatorPosition s"
  "lastPulseTime (report_inputs inp s) = lastPulseTime s"
  "pulseInterval (report_inputs inp s) = pulseInterval s"
  "pulseReceived (report_inputs inp s) = pulseReceived s"
  "rpm (report_inputs inp s) = rpm s"
  "rpmSamples (report_inputs inp s) = rpmSamples s"
  "sampleIndex (report_inputs inp s) = sampleIndex s"
  "lastRPM (report_inputs inp s) = lastRPM s"
  "lastUpdateTime (report_inputs inp s) = lastUpdateTime s"
  "movingUp (report_inputs inp s) = movingUp s"
  "braking (report_inputs inp s) = braking s"
  by (simp_all add: report_inputs_def Let_def emit_fields)

lemma braking_state_fields:
  "estopEngaged (braking_state s) = (estopEngaged s \<and> \<not> braking s)"
  "actuatorPosition (braking_state s) = (if braking s then 70 else actuatorPosition s)"
  "lastPulseTime (braking_state s) = lastPulseTime s"
  "pulseInterval (braking_state s) = pulseInterval s"
  "pulseReceived (braking_state s) = pulseReceived s"
  "rpm (braking_state s) = rpm s"
  "rpmSamples (braking_state s) = rpmSamples s"
  "sampleIndex (braking_state s) = sampleIndex s"
  "lastRPM (braking_state s) = lastRPM s"
  "lastUpdateTime (braking_state s) = lastUpdateTime s"
  "movingUp (braking_state s) = movingUp s"
  "braking (braking_state s) = False"
  "trace (braking_state s) =
     (if braking s then trace s @ [Println ''Braking'', ActuatorWrite 70, PrintlnI 70]
      else trace s)"
  by (simp_all add: braking_state_def Let_def emit_def)

lemma choose_move_position:
  "actuatorPosition (choose_move s) =
     (if maxShaftRPM < rpm s then actuatorPosition s + stepSize
      else if lastRPM s < rpm s
        then (if movingUp s then actuatorPosition s + stepSize else actuatorPosition s - stepSize)
        else (if movingUp s then actuatorPosition s - stepSize else actuatorPosition s + stepSize))"
  by (simp add: choose_move_def Let_def emit_def)

lemma choose_move_movingUp:
  "movingUp (choose_move s) =
     (if maxShaftRPM < rpm s \<or> lastRPM s < rpm s then movingUp s else \<not> movingUp s)"
  by (simp add: choose_move_def Let_def emit_def)

lemma choose_move_fields:
  "estopEngaged (choose_move s) = estopEngaged s"
  "lastPulseTime (choose_move s) = lastPulseTime s"
  "pulseInterval (choose_move s) = pulseInterval s"
  "pulseReceived (choose_move s) = pulseReceived s"
  "rpm (choose_move s) = rpm s"
  "rpmSamples (choose_move s) = rpmSamples s"
  "sampleIndex (choose_move s) = sampleIndex s"
  "lastRPM (choose_move s) = lastRPM s"
  "lastUpdateTime (choose_move s) = lastUpdateTime s"
  "braking (choose_move s) = braking s"
  by (simp_all add: choose_move_def Let_def emit_def)


lemma choose_move_trace:
  "trace (choose_move s) = trace s @
     (if maxShaftRPM < rpm s then [Println ''RPM too high, feathering blades.'']
      else if lastRPM s < rpm s
        then (if movingUp s
              then [Println ''RPM GREATER THAN LAST RPM'', Println ''ACTUATOR Up'']
              else [Println ''RPM GREATER THAN LAST RPM'',
                    Println ''RPM improving, continuing same direction.'',
                    Println ''ACTUATOR DOWN''])
        else (if movingUp s
              then [Println ''RPM GOT WORSE'', Println ''RPM dropped, reversing direction.'',
                    Println ''actuator DOWN'']
              else [Println ''RPM GOT WORSE'', Println ''actuator UP'']))"
  by (simp add: choose_move_def Let_def emit_def)

lemma bound_position_fields:
  "actuatorPosition (bound_position s) = bounded (actuatorPosition s)"
  "estopEngaged (bound_position s) = estopEngaged s"
  "lastPulseTime (bound_position s) = lastPulseTime s"
  "pulseInterval (bound_position s) = pulseInterval s"
  "pulseReceived (bound_position s) = pulseReceived s"
  "rpm (bound_position s) = rpm s"
  "rpmSamples (bound_position s) = rpmSamples s"
  "sampleIndex (bound_position s) = sampleIndex s"
  "lastRPM (bound_position s) = lastRPM s"
  "lastUpdateTime (bound_position s) = lastUpdateTime s"
  "movingUp (bound_position s) = movingUp s"
  "braking (bound_position s) = braking s"
  "trace (bound_position s) = trace s"
  by (simp_all add: bound_position_def bounded_def Let_def actuatorMin_def actuatorMax_def)

lemma commit_move_fields:
  "actuatorPosition (commit_move s) = bounded (actuatorPosition s)"
  "estopEngaged (commit_move s) = estopEngaged s"
  "lastPulseTime (commit_move s) = lastPulseTime s"
  "pulseInterval (commit_move s) = pulseInterval s"
  "pulseReceived (commit_move s) = pulseReceived s"
  "rpm (commit_move s) = rpm s"
  "rpmSamples (commit_move s) = rpmSamples s"
  "sampleIndex (commit_move s) = sampleIndex s"
  "lastRPM (commit_move s) = rpm s"
  "lastUpdateTime (commit_move s) = lastUpdateTime s"
  "movingUp (commit_move s) = movingUp s"
  "braking (commit_move s) = braking s"
  "trace (commit_move s) = trace s @
     [ActuatorWrite (bounded (actuatorPosition s)), Println ''New Actuator Position: '',
      PrintlnI (bounded (actuatorPosition s))]"
  by (simp_all add: commit_move_def Let_def emit_fields bound_position_fields)

lemma bounded_range: "47 \<le> bounded p \<and> bounded p \<le> 71"
  by (simp add: bounded_def actuatorMin_def actuatorMax_def)

lemma bounded_id: "47 \<le> p \<Longrightarrow> p \<le> 71 \<Longrightarrow> bounded p = p"
  by (simp add: bounded_def actuatorMin_def actuatorMax_def)

lemma optimizer_due_update [simp]:
  "optimizer_due t (s\<lparr>lastUpdateTime := u\<rparr>) =
     (\<not> braking s \<and> \<not> estopEngaged s \<and> updateInterval < t - u)"
  by (simp add: optimizer_due_def)

lemma tick_fields:
  assumes "optimizer_due t s"
  shows "actuatorPosition (actuator_optimization t s) = bounded (actuatorPosition (choose_move s))"
    and "movingUp (actuator_optimization t s) = movingUp (choose_move s)"
    and "lastRPM (actuator_optimization t s) = rpm s"
    and "rpm (actuator_optimization t s) = rpm s"
    and "lastUpdateTime (actuator_optimization t s) = t"
    and "braking (actuator_optimization t s) = braking s"
    and "estopEngaged (actuator_optimization t s) = estopEngaged s"
  using assms
  by (simp_all add: actuator_optimization_def commit_move_fields choose_move_fields
      choose_move_position choose_move_movingUp)

lemma idle_tick: "\<not> optimizer_due t s \<Longrightarrow> actuator_optimization t s = s"
  by (simp add: actuator_optimization_def)

lemma tick_flags:
  "braking (actuator_optimization t s) = braking s"
  "estopEngaged (actuator_optimization t s) = estopEngaged s"
  "rpm (actuator_optimization t s) = rpm s"
  "pulseReceived (actuator_optimization t s) = pulseReceived s"
  "pulseInterval (actuator_optimization t s) = pulseInterval s"
  "rpmSamples (actuator_optimization t s) = rpmSamples s"
  "sampleIndex (actuator_optimization t s) = sampleIndex s"
  by (simp_all add: actuator_optimization_def commit_move_fields choose_move_fields)

lemma tick_trace:
  "optimizer_due t s \<Longrightarrow> trace (actuator_optimization t s) =
     trace (choose_move s) @
       [ActuatorWrite (bounded (actuatorPosition (choose_move s))),
        Println ''New Actuator Position: '',
        PrintlnI (bounded (actuatorPosition (choose_move s)))]"
  by (simp add: actuator_optimization_def commit_move_fields choose_move_position
      choose_move_trace)

lemma loop_unfold:
  "loop inp s = actuator_optimization (millis inp) (braking_state (report_inputs inp s))"
  by (simp add: loop_def Let_def)

subsection \<open>The RPM estimator and the interrupt handler\<close>

lemma upt_ten: "[0..<numSamples] = [0, 1, 2, 3, 4, 5, 6, 7, 8, 9]"
  by (simp add: numSamples_def upt_rec)

lemma handle_accept:
  assumes "pulseReceived s" "0 < pulseInterval s"
    and "minValidRPM < newRPM (pulseInterval s)" "newRPM (pulseInterval s) < maxValidRPM"
  shows "rpmSamples (handleRPMUpdates s) = (rpmSamples s)[sampleIndex s := newRPM (pulseInterval s)]"
    and "sampleIndex (handleRPMUpdates s) = (sampleIndex s + 1) mod numSamples"
    and "rpm (handleRPMUpdates s) =
           f32 (sum_samples ((rpmSamples s)[sampleIndex s := newRPM (pulseInterval s)]) / of_nat numSamples)"
    and "pulseReceived (handleRPMUpdates s) = False"
    and "lastPulseTime (handleRPMUpdates s) = lastPulseTime s"
    and "trace (handleRPMUpdates s) = trace s @
           [Print ''Smoothed Shaft RPM: '', PrintlnF (rpm (handleRPMUpdates s))]"
  using assms by (simp_all add: handleRPMUpdates_def Let_def emit_def)

lemma handle_reject:
  assumes "pulseReceived s" "0 < pulseInterval s"
    and "\<not> (minValidRPM < newRPM (pulseInterval s) \<and> newRPM (pulseInterval s) < maxValidRPM)"
  shows "handleRPMUpdates s = emit [Println ''Ignored bad RPM reading''] (s\<lparr>pulseReceived := False\<rparr>)"
  using assms by (auto simp add: handleRPMUpdates_def Let_def)

lemma handle_idle: "\<not> pulseReceived s \<Longrightarrow> handleRPMUpdates s = s"
  by (simp add: handleRPMUpdates_def)

lemma handle_zero:
  "pulseReceived s \<Longrightarrow> pulseInterval s = 0 \<Longrightarrow> handleRPMUpdates s = s\<lparr>pulseReceived := False\<rparr>"
  by (simp add: handleRPMUpdates_def)

lemma pulse_fields:
  "pulseReceived (pulseISR now s)"
  "pulseInterval (pulseISR now s) = now - lastPulseTime s"
  "lastPulseTime (pulseISR now s) = now"
  "rpmSamples (pulseISR now s) = rpmSamples s"
  "sampleIndex (pulseISR now s) = sampleIndex s"
  "rpm (pulseISR now s) = rpm s"
  "lastRPM (pulseISR now s) = lastRPM s"
  "trace (pulseISR now s) = trace s"
  by (simp_all add: pulseISR_def Let_def)

lemma setup_fields:
  "lastPulseTime (setup_fn power_on) = 0"
  "rpmSamples (setup_fn power_on) = replicate numSamples 0"
  "sampleIndex (setup_fn power_on) = 0"
  "rpm (setup_fn power_on) = 0"
  "lastRPM (setup_fn power_on) = 0"
  "pulseReceived (setup_fn power_on) = False"
  "actuatorPosition (setup_fn power_on) = 56"
  "movingUp (setup_fn power_on)"
  by (simp_all add: setup_fn_def power_on_def emit_def)

lemma f32_fix_34286: "f32 34286 = 34286"
  using f32_of_int [of 34286] by simp

lemma f32_steady_sample: "f32 (30000000 / 17143) = 14335881 / 8192"
  using f32_upI [of "30000000 / 17143" 13 14335881] by simp

lemma newRPM_34286: "newRPM 34286 = 14335881 / 8192"
  by (simp add: newRPM_def f32_fix_34286 f32_steady_sample)

lemma loop_frame:
  "rpm (loop inp s) = rpm s"
  "rpmSamples (loop inp s) = rpmSamples s"
  "sampleIndex (loop inp s) = sampleIndex s"
  "pulseReceived (loop inp s) = pulseReceived s"
  "pulseInterval (loop inp s) = pulseInterval s"
  by (simp_all add: loop_unfold tick_flags braking_state_fields report_inputs_fields)

lemma f32_fix_60000: "f32 60000 = 60000"
  using f32_of_int [of 60000] by simp

lemma f32_fix_1000: "f32 1000 = 1000"
  using f32_of_int [of 1000] by simp

lemma f32_fix_100: "f32 100 = 100"
  using f32_of_int [of 100] by simp

lemma newRPM_60000: "newRPM 60000 = 1000"
  by (simp add: newRPM_def f32_fix_60000 f32_fix_1000)

subsection \<open>An upper bound of the moving average\<close>

text \<open>
  The running sum of the first \<open>k\<close> slots. When every slot is at most a value \<open>m / 2 ^ e\<close>
  whose first ten multiples are representable, no rounding in the summing loop can exceed
  the multiple, so the smoothed RPM is at most that value too.
\<close>

lemma partial_sum_upper:
  fixes xs :: "rat list"
  assumes xs: "\<forall>j<numSamples. xs ! j \<le> of_int m / 2 ^ e"
    and m: "0 < m" "10 * m < 2 ^ 24" and e: "e \<le> 125"
  shows "k \<le> numSamples \<Longrightarrow>
    foldl (\<lambda>sum i. f32 (sum + xs ! i)) 0 [0..<k] \<le> of_nat k * (of_int m / 2 ^ e)"
proof (induction k)
  case 0
  show ?case by simp
next
  case (Suc k)
  define c :: rat where "c = of_int m / 2 ^ e"
  have xsc: "\<forall>j<numSamples. xs ! j \<le> c" using xs by (simp add: c_def)
  let ?A = "foldl (\<lambda>sum i. f32 (sum + xs ! i)) 0 [0..<k]"
  have k: "k < numSamples" using Suc.prems by simp
  then have IH: "?A \<le> of_nat k * c" using Suc.IH by (simp add: c_def)
  have "xs ! k \<le> c" using xsc k by simp
  then have "?A + xs ! k \<le> of_nat k * c + c" using IH by (rule add_mono [rotated])
  also have "\<dots> = of_nat (Suc k) * c" by (simp add: algebra_simps)
  finally have "f32 (?A + xs ! k) \<le> f32 (of_nat (Suc k) * c)" by (rule f32_mono)
  also have "f32 (of_nat (Suc k) * c) = of_nat (Suc k) * c"
  proof -
    have "int (Suc k) \<le> 10" using Suc.prems by (simp add: numSamples_def)
    then have "int (Suc k) * m \<le> 10 * m" using m(1) by (intro mult_right_mono) simp_all
    then have b: "int (Suc k) * m < 2 ^ 24" using m(2) by linarith
    have p: "0 < int (Suc k) * m" using m(1) by simp
    have eq: "of_nat (Suc k) * c = of_int (int (Suc k) * m) / 2 ^ e"
      unfolding c_def by simp
    show ?thesis unfolding eq using p b e by (rule f32_dyadic)
  qed
  finally show ?case by (simp add: c_def)
qed

lemma smoothed_upper:
  fixes xs :: "rat list"
  assumes "\<forall>j<numSamples. xs ! j \<le> of_int m / 2 ^ e"
    and "0 < m" "10 * m < 2 ^ 24" "e \<le> 125"
  shows "f32 (sum_samples xs / of_nat numSamples) \<le> of_int m / 2 ^ e"
proof -
  define c :: rat where "c = of_int m / 2 ^ e"
  have "sum_samples xs \<le> of_nat numSamples * c"
    unfolding sum_samples_def c_def using assms by (intro partial_sum_upper) simp_all
  then have "sum_samples xs / of_nat numSamples \<le> c"
    by (simp add: numSamples_def)
  then have "sum_samples xs / of_nat numSamples \<le> of_int m / 2 ^ e"
    by (simp only: c_def)
  then have "f32 (sum_samples xs / of_nat numSamples) \<le> f32 (of_int m / 2 ^ e)"
    by (rule f32_mono)
  moreover have "m < 2 ^ 24" using assms(2,3) by linarith
  then have "f32 (of_int m / 2 ^ e) = of_int m / 2 ^ e"
    using assms(2,4) by (intro f32_dyadic)
  ultimately show ?thesis by simp
qed

subsection \<open>Pulses at a steady interval\<close>

lemma steady_run_Suc: "steady_run (Suc n) = steady_pulse 34286 (steady_run n)"
  by (simp add: steady_run_def)

lemma steady_pulse_fields:
  "rpmSamples (steady_pulse 34286 s) = (rpmSamples s)[sampleIndex s := 14335881 / 8192]"
  "sampleIndex (steady_pulse 34286 s) = (sampleIndex s + 1) mod numSamples"
  "rpm (steady_pulse 34286 s) =
     f32 (sum_samples (rpmSamples (steady_pulse 34286 s)) / of_nat numSamples)"
proof -
  let ?p = "pulseISR (lastPulseTime s + 34286) s"
  have a: "pulseReceived ?p" "pulseInterval ?p = 34286"
    by (simp_all add: pulse_fields)
  have p: "0 < pulseInterval ?p" by (simp add: a)
  have v: "minValidRPM < newRPM (pulseInterval ?p)" "newRPM (pulseInterval ?p) < maxValidRPM"
    by (simp_all add: a newRPM_34286 minValidRPM_def maxValidRPM_def)
  note h = handle_accept [OF a(1) p v]
  show "rpmSamples (steady_pulse 34286 s) = (rpmSamples s)[sampleIndex s := 14335881 / 8192]"
    using h(1) by (simp add: steady_pulse_def a pulse_fields newRPM_34286)
  show "sampleIndex (steady_pulse 34286 s) = (sampleIndex s + 1) mod numSamples"
    using h(2) by (simp add: steady_pulse_def pulse_fields)
  show "rpm (steady_pulse 34286 s) =
     f32 (sum_samples (rpmSamples (steady_pulse 34286 s)) / of_nat numSamples)"
    using h(1,3) by (simp add: steady_pulse_def)
qed

lemma steady_run_samples:
  "length (rpmSamples (steady_run n)) = numSamples \<and>
   sampleIndex (steady_run n) = n mod numSamples \<and>
   (\<forall>j<numSamples. rpmSamples (steady_run n) ! j = (if j < n then 14335881 / 8192 else 0))"
proof (induction n)
  case 0
  show ?case by (simp add: steady_run_def setup_fields)
next
  case (Suc n)
  let ?xs = "rpmSamples (steady_run n)"
  have len: "length ?xs = numSamples" and idx: "sampleIndex (steady_run n) = n mod numSamples"
    and old: "\<And>j. j < numSamples \<Longrightarrow> ?xs ! j = (if j < n then 14335881 / 8192 else 0)"
    using Suc.IH by simp_all
  have new: "rpmSamples (steady_run (Suc n)) = ?xs[n mod numSamples := 14335881 / 8192]"
    by (simp add: steady_run_Suc steady_pulse_fields idx)
  have "rpmSamples (steady_run (Suc n)) ! j = (if j < Suc n then 14335881 / 8192 else 0)"
    if j: "j < numSamples" for j
  proof (cases "n < numSamples")
    case True
    then show ?thesis using j old [OF j] len by (auto simp add: new nth_list_update)
  next
    case False
    then have "j < n" using j by simp
    then show ?thesis using j old [OF j] len by (simp add: new nth_list_update)
  qed
  moreover have "sampleIndex (steady_run (Suc n)) = Suc n mod numSamples"
    by (simp add: steady_run_Suc steady_pulse_fields idx mod_Suc_eq)
  moreover have "length (rpmSamples (steady_run (Suc n))) = numSamples"
    by (simp add: new len)
  ultimately show ?case by simp
qed

lemma steady_run_rpm_upper: "rpm (steady_run n) \<le> 223999 / 128"
proof (cases n)
  case 0
  then show ?thesis by (simp add: steady_run_def setup_fields)
next
  case (Suc k)
  have "\<forall>j<numSamples. rpmSamples (steady_run n) ! j \<le> of_int 223999 / 2 ^ 7"
    using steady_run_samples [of n] by simp
  then have "f32 (sum_samples (rpmSamples (steady_run n)) / of_nat numSamples) \<le> of_int 223999 / 2 ^ 7"
    by (rule smoothed_upper) simp_all
  then show ?thesis unfolding Suc steady_run_Suc by (simp add: steady_pulse_fields(3))
qed

text \<open>Ten slots holding the steady sample: the ten roundings of the summing loop and the
  rounding of the division, one by one.\<close>

lemma steady_mean:
  fixes xs :: "rat list"
  assumes "\<forall>j<numSamples. xs ! j = 14335881 / 8192"
  shows "f32 (sum_samples xs / of_nat numSamples) = 7167941 / 4096"
proof -
  have x: "xs ! 0 = 14335881 / 8192" "xs ! 1 = 14335881 / 8192" "xs ! 2 = 14335881 / 8192"
    "xs ! 3 = 14335881 / 8192" "xs ! 4 = 14335881 / 8192" "xs ! 5 = 14335881 / 8192"
    "xs ! 6 = 14335881 / 8192" "xs ! 7 = 14335881 / 8192" "xs ! 8 = 14335881 / 8192"
    "xs ! 9 = 14335881 / 8192"
    using assms by (simp_all add: numSamples_def)
  have a1: "f32 (0 + 14335881 / 8192) = (14335881 / 8192 :: rat)"
    using f32_upI [of "0 + 14335881 / 8192" 13 14335881] by simp
  have a2: "f32 (14335881 / 8192 + 14335881 / 8192) = (14335881 / 4096 :: rat)"
    using f32_upI [of "14335881 / 8192 + 14335881 / 8192" 12 14335881] by simp
  have a3: "f32 (14335881 / 4096 + 14335881 / 8192) = (10751911 / 2048 :: rat)"
    using f32_upI [of "14335881 / 4096 + 14335881 / 8192" 11 10751911] by simp
  have a4: "f32 (10751911 / 2048 + 14335881 / 8192) = (14335881 / 2048 :: rat)"
    using f32_upI [of "10751911 / 2048 + 14335881 / 8192" 11 14335881] by simp
  have a5: "f32 (14335881 / 2048 + 14335881 / 8192) = (4479963 / 512 :: rat)"
    using f32_upI [of "14335881 / 2048 + 14335881 / 8192" 10 8959926] by simp
  have a6: "f32 (4479963 / 512 + 14335881 / 8192) = (10751911 / 1024 :: rat)"
    using f32_upI [of "4479963 / 512 + 14335881 / 8192" 10 10751911] by simp
  have a7: "f32 (10751911 / 1024 + 14335881 / 8192) = (1567987 / 128 :: rat)"
    using f32_upI [of "10751911 / 1024 + 14335881 / 8192" 10 12543896] by simp
  have a8: "f32 (1567987 / 128 + 14335881 / 8192) = (14335881 / 1024 :: rat)"
    using f32_upI [of "1567987 / 128 + 14335881 / 8192" 10 14335881] by simp
  have a9: "f32 (14335881 / 1024 + 14335881 / 8192) = (8063933 / 512 :: rat)"
    using f32_upI [of "14335881 / 1024 + 14335881 / 8192" 10 16127866] by simp
  have a10: "f32 (8063933 / 512 + 14335881 / 8192) = (4479963 / 256 :: rat)"
    using f32_upI [of "8063933 / 512 + 14335881 / 8192" 9 8959926] by simp
  have mean: "f32 (4479963 / 256 / of_nat numSamples) = (7167941 / 4096 :: rat)"
    using f32_upI [of "4479963 / 256 / 10" 13 14335882] by (simp add: numSamples_def)
  have "sum_samples xs = 4479963 / 256"
    by (simp only: sum_samples_def upt_ten foldl.simps x a1 a2 a3 a4 a5 a6 a7 a8 a9 a10)
  then show ?thesis by (simp only: mean)
qed

lemma steady_run_rpm_exact:
  assumes "10 \<le> n"
  shows "rpm (steady_run n) = 7167941 / 4096"
proof (cases n)
  case 0
  then show ?thesis using assms by simp
next
  case (Suc k)
  have "rpmSamples (steady_run n) ! j = 14335881 / 8192" if "j < numSamples" for j
    using steady_run_samples [of n] assms that by (simp add: numSamples_def)
  then have "f32 (sum_samples (rpmSamples (steady_run n)) / of_nat numSamples) = 7167941 / 4096"
    by (intro steady_mean) simp
  then show ?thesis unfolding Suc steady_run_Suc by (simp only: steady_pulse_fields(3))
qed

subsection \<open>The shipped sketch between iterations\<close>

text \<open>
  In every state the shipped sketch reaches, the smoothed RPM and the remembered RPM are
  zero, neither flag is set and the position is in range: \<^verbatim>\<open>loop\<close> never calls
  \<^verbatim>\<open>handleRPMUpdates\<close> and the only assignments of \<^verbatim>\<open>true\<close> to the flags are inside a
  comment.
\<close>

lemma run_snoc: "run (acts @ [a]) = perform a (run acts)"
  by (simp add: run_def)

lemma run_inv:
  "rpm (run acts) = 0 \<and> lastRPM (run acts) = 0 \<and> \<not> braking (run acts) \<and>
   \<not> estopEngaged (run acts) \<and>
   47 \<le> actuatorPosition (run acts) \<and> actuatorPosition (run acts) \<le> 71"
proof (induction acts rule: rev_induct)
  case Nil
  show ?case by (simp add: run_def setup_fn_def power_on_def emit_def)
next
  case (snoc a acts)
  show ?case
  proof (cases a)
    case (Iteration inp)
    show ?thesis
    proof (cases "optimizer_due (millis inp) (braking_state (report_inputs inp (run acts)))")
      case True
      then show ?thesis using snoc.IH bounded_range
        by (simp add: run_snoc Iteration loop_unfold tick_fields braking_state_fields
            report_inputs_fields)
    next
      case False
      then show ?thesis using snoc.IH
        by (simp add: run_snoc Iteration loop_unfold idle_tick braking_state_fields
            report_inputs_fields)
    qed
  next
    case (Pulse now)
    then show ?thesis using snoc.IH by (simp add: run_snoc pulseISR_def Let_def)
  qed
qed

lemma report_inputs_trace:
  "trace (report_inputs inp s) = trace s @
     [PrintlnI (estopLevel inp), PrintlnF (f32 (of_int (analog inp))),
      PrintlnF (Vload (analog inp)), Print ''Input Voltage: '',
      PrintlnF (Vmeasured (analog inp))]"
  by (simp add: report_inputs_def Let_def emit_def)

lemma idle_braking_state: "\<not> braking s \<Longrightarrow> braking_state s = s"
  by (simp add: braking_state_def)

text \<open>
  The shipped sketch only ever alternates between position 56 moving up and position 55
  moving down, and never issues the braking action.
\<close>

lemma run_pos:
  "(movingUp (run acts) \<and> actuatorPosition (run acts) = 56) \<or>
   (\<not> movingUp (run acts) \<and> actuatorPosition (run acts) = 55)"
proof (induction acts rule: rev_induct)
  case Nil
  show ?case by (simp add: run_def setup_fn_def power_on_def emit_def)
next
  case (snoc a acts)
  have inv: "rpm (run acts) = 0" "lastRPM (run acts) = 0" "\<not> braking (run acts)"
    "\<not> estopEngaged (run acts)"
    using run_inv [of acts] by simp_all
  show ?case
  proof (cases a)
    case (Iteration inp)
    show ?thesis
    proof (cases "optimizer_due (millis inp) (braking_state (report_inputs inp (run acts)))")
      case True
      then show ?thesis using snoc.IH inv
        by (auto simp add: run_snoc Iteration loop_unfold tick_fields choose_move_position
            choose_move_movingUp braking_state_fields report_inputs_fields bounded_def
            const_defs)
    next
      case False
      then show ?thesis using snoc.IH inv
        by (simp add: run_snoc Iteration loop_unfold idle_tick braking_state_fields
            report_inputs_fields)
    qed
  next
    case (Pulse now)
    then show ?thesis using snoc.IH by (simp add: run_snoc pulseISR_def Let_def)
  qed
qed

lemma run_no_brake:
  "Println ''Braking'' \<notin> set (trace (run acts)) \<and> ActuatorWrite 70 \<notin> set (trace (run acts))"
proof (induction acts rule: rev_induct)
  case Nil
  show ?case by (simp add: run_def setup_fn_def power_on_def emit_def)
next
  case (snoc a acts)
  have inv: "rpm (run acts) = 0" "lastRPM (run acts) = 0" "\<not> braking (run acts)"
    "\<not> estopEngaged (run acts)"
    using run_inv [of acts] by simp_all
  show ?case
  proof (cases a)
    case (Iteration inp)
    let ?r = "report_inputs inp (run acts)"
    have b: "braking_state ?r = ?r"
      using inv by (intro idle_braking_state) (simp add: report_inputs_fields)
    have r: "Println ''Braking'' \<notin> set (trace ?r) \<and> ActuatorWrite 70 \<notin> set (trace ?r)"
      using snoc.IH by (simp add: report_inputs_trace)
    show ?thesis
    proof (cases "optimizer_due (millis inp) ?r")
      case True
      have c: "Println ''Braking'' \<notin> set (trace (choose_move ?r)) \<and>
          ActuatorWrite 70 \<notin> set (trace (choose_move ?r))"
        using r by (simp add: choose_move_trace)
      have p: "actuatorPosition (choose_move ?r) = 55 \<or> actuatorPosition (choose_move ?r) = 56"
        using run_pos [of acts] inv
        by (auto simp add: choose_move_position report_inputs_fields const_defs)
      then have "bounded (actuatorPosition (choose_move ?r)) \<noteq> 70"
        by (auto simp add: bounded_def const_defs)
      then show ?thesis using True c
        by (simp add: run_snoc Iteration loop_unfold b tick_trace)
    next
      case False
      then show ?thesis using r by (simp add: run_snoc Iteration loop_unfold b idle_tick)
    qed
  next
    case (Pulse now)
    then show ?thesis using snoc.IH by (simp add: run_snoc pulse_fields)
  qed
qed

section \<open>The claims\<close>

text \<open>
  Claim C1. \<^verbatim>\<open>loop\<close> has no call of \<^verbatim>\<open>handleRPMUpdates\<close>: an iteration changes neither the
  smoothed RPM, nor the sample buffer, nor the pending-pulse flag. With a pulse of 60000
  microseconds pending after \<^verbatim>\<open>setup\<close>, \<^verbatim>\<open>handleRPMUpdates\<close> would consume it and set the
  smoothed RPM to 100; the iteration leaves the RPM at 0 and the pulse pending.
\<close>

theorem loop_ignores_pending_pulse:
  "pulseReceived (pulseISR 60000 (setup_fn power_on)) \<and>
   pulseInterval (pulseISR 60000 (setup_fn power_on)) = 60000 \<and>
   rpm (handleRPMUpdates (pulseISR 60000 (setup_fn power_on))) = 100 \<and>
   \<not> pulseReceived (handleRPMUpdates (pulseISR 60000 (setup_fn power_on))) \<and>
   rpm (loop inp (pulseISR 60000 (setup_fn power_on))) = 0 \<and>
   rpmSamples (loop inp (pulseISR 60000 (setup_fn power_on))) = replicate numSamples 0 \<and>
   pulseReceived (loop inp (pulseISR 60000 (setup_fn power_on))) \<and>
   rpm (loop inp s) = rpm s \<and> rpmSamples (loop inp s) = rpmSamples s \<and>
   sampleIndex (loop inp s) = sampleIndex s \<and> pulseReceived (loop inp s) = pulseReceived s"
proof -
  let ?s = "pulseISR 60000 (setup_fn power_on)"
  have a: "pulseReceived ?s" "pulseInterval ?s = 60000"
    by (simp_all add: pulse_fields setup_fields)
  have p: "0 < pulseInterval ?s" by (simp add: a)
  have v: "minValidRPM < newRPM (pulseInterval ?s)" "newRPM (pulseInterval ?s) < maxValidRPM"
    by (simp_all add: a newRPM_60000 minValidRPM_def maxValidRPM_def)
  have "sum_samples ((replicate numSamples 0)[0 := 1000]) = 1000"
    by (simp add: sum_samples_def upt_ten f32_fix_1000) (simp add: numSamples_def f32_fix_1000)
  then have r: "rpm (handleRPMUpdates ?s) = 100"
    using handle_accept(3) [OF a(1) p v]
    by (simp add: a pulse_fields setup_fields newRPM_60000) (simp add: numSamples_def f32_fix_100)
  have c: "\<not> pulseReceived (handleRPMUpdates ?s)"
    using handle_accept(4) [OF a(1) p v] by simp
  show ?thesis using a r c by (simp add: loop_frame pulse_fields setup_fields)
qed

text \<open>
  Claim C2. In every state the shipped sketch reaches, \<open>rpm\<close> and \<open>lastRPM\<close> are both 0,
  so a tick of the optimizer finds neither \<open>rpm > maxShaftRPM\<close> nor \<open>rpm > lastRPM\<close>,
  takes the reversal branch (it logs \<^verbatim>\<open>RPM GOT WORSE\<close>) and flips \<open>movingUp\<close>: the
  direction alternates from tick to tick.
\<close>

theorem rpm_stays_zero:
  "rpm (run acts) = 0 \<and> lastRPM (run acts) = 0 \<and>
   (optimizer_due (millis inp) (braking_state (report_inputs inp (run acts))) \<longrightarrow>
      \<not> maxShaftRPM < rpm (run acts) \<and> \<not> lastRPM (run acts) < rpm (run acts) \<and>
      Println ''RPM GOT WORSE'' \<in>
        set (drop (length (trace (run acts))) (trace (loop inp (run acts)))) \<and>
      movingUp (loop inp (run acts)) = (\<not> movingUp (run acts)) \<and>
      actuatorPosition (loop inp (run acts)) =
        bounded (if movingUp (run acts) then actuatorPosition (run acts) - stepSize
                 else actuatorPosition (run acts) + stepSize))"
proof -
  let ?s = "run acts"
  have inv: "rpm ?s = 0" "lastRPM ?s = 0" "\<not> braking ?s" "\<not> estopEngaged ?s"
    using run_inv [of acts] by simp_all
  have "Println ''RPM GOT WORSE'' \<in> set (drop (length (trace ?s)) (trace (loop inp ?s))) \<and>
      movingUp (loop inp ?s) = (\<not> movingUp ?s) \<and>
      actuatorPosition (loop inp ?s) =
        bounded (if movingUp ?s then actuatorPosition ?s - stepSize
                 else actuatorPosition ?s + stepSize)"
    if due: "optimizer_due (millis inp) (braking_state (report_inputs inp ?s))"
  proof -
    have m: "movingUp (loop inp ?s) = (\<not> movingUp ?s)"
      using due inv
      by (simp add: loop_unfold tick_fields choose_move_movingUp braking_state_fields
          report_inputs_fields maxShaftRPM_def)
    have p: "actuatorPosition (loop inp ?s) =
        bounded (if movingUp ?s then actuatorPosition ?s - stepSize
                 else actuatorPosition ?s + stepSize)"
      using due inv
      by (simp add: loop_unfold tick_fields choose_move_position braking_state_fields
          report_inputs_fields maxShaftRPM_def)
    have "trace (report_inputs inp ?s) = trace ?s @
        [PrintlnI (estopLevel inp), PrintlnF (f32 (of_int (analog inp))),
         PrintlnF (Vload (analog inp)), Print ''Input Voltage: '',
         PrintlnF (Vmeasured (analog inp))]"
      by (simp add: report_inputs_def Let_def emit_def)
    then have t: "Println ''RPM GOT WORSE'' \<in>
        set (drop (length (trace ?s)) (trace (loop inp ?s)))"
      using due inv
      by (simp add: loop_unfold tick_trace choose_move_trace braking_state_fields
          report_inputs_fields maxShaftRPM_def)
    show ?thesis using m p t by blast
  qed
  then show ?thesis using inv by (simp add: maxShaftRPM_def)
qed

theorem rpm_stays_zero_witness:
  "optimizer_due 101 (braking_state (report_inputs
      \<lparr>millis = 101, estopLevel = 0, analog = 512\<rparr> (run []))) \<and>
   rpm (run []) = 0 \<and> lastRPM (run []) = 0 \<and> movingUp (run []) \<and>
   \<not> movingUp (loop \<lparr>millis = 101, estopLevel = 0, analog = 512\<rparr> (run [])) \<and>
   actuatorPosition (loop \<lparr>millis = 101, estopLevel = 0, analog = 512\<rparr> (run [])) = 55"
proof -
  have due: "optimizer_due 101 (braking_state (report_inputs
      \<lparr>millis = 101, estopLevel = 0, analog = 512\<rparr> (run [])))"
    by (simp add: optimizer_due_def braking_state_fields report_inputs_fields run_def
        setup_fn_def power_on_def emit_def updateInterval_def)
  have up: "movingUp (run [])" "actuatorPosition (run []) = 56"
    by (simp_all add: run_def setup_fn_def power_on_def emit_def)
  show ?thesis
    using rpm_stays_zero [of "[]" "\<lparr>millis = 101, estopLevel = 0, analog = 512\<rparr>"] due up
    by (simp add: bounded_def const_defs)
qed

text \<open>
  Claim C3. The actuator position is within 47 to 71 at startup, after every tick of the
  optimizer whatever the position was before it, after the braking block, and so after
  every iteration of \<^verbatim>\<open>loop\<close> that brakes, ticks, or starts from a position in range;
  hence in every state the shipped sketch reaches.
\<close>

theorem position_bounded:
  "47 \<le> actuatorPosition (setup_fn power_on) \<and> actuatorPosition (setup_fn power_on) \<le> 71 \<and>
   (optimizer_due t s \<longrightarrow>
      47 \<le> actuatorPosition (actuator_optimization t s) \<and>
      actuatorPosition (actuator_optimization t s) \<le> 71) \<and>
   (braking s \<longrightarrow>
      47 \<le> actuatorPosition (braking_state s) \<and> actuatorPosition (braking_state s) \<le> 71) \<and>
   (braking s \<or> optimizer_due (millis inp) (braking_state s) \<or>
      (47 \<le> actuatorPosition s \<and> actuatorPosition s \<le> 71) \<longrightarrow>
      47 \<le> actuatorPosition (loop inp s) \<and> actuatorPosition (loop inp s) \<le> 71) \<and>
   47 \<le> actuatorPosition (run acts) \<and> actuatorPosition (run acts) \<le> 71"
proof -
  have a: "47 \<le> actuatorPosition (setup_fn power_on) \<and> actuatorPosition (setup_fn power_on) \<le> 71"
    by (simp add: setup_fn_def power_on_def emit_def)
  have b: "47 \<le> actuatorPosition (actuator_optimization t' s') \<and>
      actuatorPosition (actuator_optimization t' s') \<le> 71" if "optimizer_due t' s'" for t' s'
    using that bounded_range by (simp add: tick_fields)
  have c: "braking s \<longrightarrow>
      47 \<le> actuatorPosition (braking_state s) \<and> actuatorPosition (braking_state s) \<le> 71"
    by (simp add: braking_state_fields)
  have d: "47 \<le> actuatorPosition (loop inp s) \<and> actuatorPosition (loop inp s) \<le> 71"
    if h: "braking s \<or> optimizer_due (millis inp) (braking_state s) \<or>
      (47 \<le> actuatorPosition s \<and> actuatorPosition s \<le> 71)"
  proof (cases "optimizer_due (millis inp) (braking_state (report_inputs inp s))")
    case True
    then show ?thesis unfolding loop_unfold by (rule b)
  next
    case False
    then have "\<not> optimizer_due (millis inp) (braking_state s)"
      by (simp add: optimizer_due_def braking_state_fields report_inputs_fields)
    with h have "braking s \<or> (47 \<le> actuatorPosition s \<and> actuatorPosition s \<le> 71)" by blast
    then show ?thesis using False
      by (auto simp add: loop_unfold idle_tick braking_state_fields report_inputs_fields)
  qed
  have e: "47 \<le> actuatorPosition (run acts) \<and> actuatorPosition (run acts) \<le> 71"
    using run_inv [of acts] by simp
  show ?thesis using a b c d e by blast
qed

theorem position_bounded_witness:
  "optimizer_due 101 (setup_fn power_on) \<and>
   actuatorPosition (actuator_optimization 101 (setup_fn power_on)) = 55 \<and>
   braking (power_on\<lparr>braking := True\<rparr>) \<and>
   actuatorPosition (braking_state (power_on\<lparr>braking := True\<rparr>)) = 70 \<and>
   47 \<le> actuatorPosition (loop \<lparr>millis = 101, estopLevel = 0, analog = 512\<rparr>
          (power_on\<lparr>braking := True\<rparr>)) \<and>
   actuatorPosition (loop \<lparr>millis = 101, estopLevel = 0, analog = 512\<rparr>
          (power_on\<lparr>braking := True\<rparr>)) \<le> 71"
proof -
  have due: "optimizer_due 101 (setup_fn power_on)"
    by (simp add: optimizer_due_def setup_fn_def power_on_def emit_def updateInterval_def)
  have pos: "actuatorPosition (actuator_optimization 101 (setup_fn power_on)) = 55"
    using due
    by (simp add: tick_fields choose_move_position bounded_def setup_fn_def power_on_def
        emit_def const_defs)
  have br: "braking (power_on\<lparr>braking := True\<rparr>)" by simp
  from due br pos show ?thesis
    using position_bounded [of 101 "setup_fn power_on"]
      position_bounded [of _ "power_on\<lparr>braking := True\<rparr>"
        "\<lparr>millis = 101, estopLevel = 0, analog = 512\<rparr>"]
    by (simp add: braking_state_fields)
qed

text \<open>
  Claim C4, as the code has it. The lines between reading the inputs and the braking check
  (119 to 131) are a comment, so the Safety Monitor sets neither flag, whatever the load
  voltage and the emergency-stop level are: at the braking check \<open>braking\<close> and
  \<open>estopEngaged\<close> have the values they had when the iteration began, and an iteration
  that begins with \<open>braking\<close> false skips the braking block and goes on to the optimizer.
  In every run of the shipped sketch both flags are false at every braking check, and the
  braking action (the \<^verbatim>\<open>Braking\<close> message, the actuator command 70) is never issued.
\<close>

theorem interlock_inert:
  "braking (report_inputs inp s) = braking s \<and>
   estopEngaged (report_inputs inp s) = estopEngaged s \<and>
   (\<not> braking s \<longrightarrow>
      braking_state (report_inputs inp s) = report_inputs inp s \<and>
      loop inp s = actuator_optimization (millis inp) (report_inputs inp s)) \<and>
   \<not> braking (report_inputs inp (run acts)) \<and>
   \<not> estopEngaged (report_inputs inp (run acts)) \<and>
   Println ''Braking'' \<notin> set (trace (run acts)) \<and>
   ActuatorWrite 70 \<notin> set (trace (run acts))"
proof -
  have a: "\<not> braking s \<longrightarrow>
      braking_state (report_inputs inp s) = report_inputs inp s \<and>
      loop inp s = actuator_optimization (millis inp) (report_inputs inp s)"
    by (simp add: loop_unfold idle_braking_state report_inputs_fields)
  show ?thesis using a run_inv [of acts] run_no_brake [of acts]
    by (simp add: report_inputs_fields)
qed

theorem interlock_inert_witness:
  "\<not> braking (setup_fn power_on) \<and>
   braking_state (report_inputs \<lparr>millis = 101, estopLevel = 1, analog = 1023\<rparr> (setup_fn power_on)) =
     report_inputs \<lparr>millis = 101, estopLevel = 1, analog = 1023\<rparr> (setup_fn power_on) \<and>
   loop \<lparr>millis = 101, estopLevel = 1, analog = 1023\<rparr> (setup_fn power_on) =
     actuator_optimization 101
       (report_inputs \<lparr>millis = 101, estopLevel = 1, analog = 1023\<rparr> (setup_fn power_on)) \<and>
   Println ''Braking'' \<notin> set (trace (run [Iteration \<lparr>millis = 101, estopLevel = 1, analog = 1023\<rparr>]))"
proof -
  have b: "\<not> braking (setup_fn power_on)" by (simp add: setup_fn_def power_on_def emit_def)
  show ?thesis
    using b interlock_inert [of "\<lparr>millis = 101, estopLevel = 1, analog = 1023\<rparr>"
        "setup_fn power_on" "[Iteration \<lparr>millis = 101, estopLevel = 1, analog = 1023\<rparr>]"]
    by simp
qed

text \<open>
  Claim C4 as stated fails. In the first iteration after \<^verbatim>\<open>setup\<close>, with the
  emergency-stop input high and the load sense at full scale (load not connected), the
  should-stop condition holds and \<open>estopEngaged\<close> is not yet set: a rising edge. At the
  braking check both flags are false, the iteration logs no \<^verbatim>\<open>Braking\<close> and sends no
  command 70, and the optimizer steps the position to 55.
\<close>

theorem interlock_counterexample:
  "should_stop \<lparr>millis = 101, estopLevel = 1, analog = 1023\<rparr> \<and>
   \<not> loadConnected 1023 \<and>
   \<not> estopEngaged (setup_fn power_on) \<and>
   \<not> braking (report_inputs \<lparr>millis = 101, estopLevel = 1, analog = 1023\<rparr> (setup_fn power_on)) \<and>
   \<not> estopEngaged (report_inputs \<lparr>millis = 101, estopLevel = 1, analog = 1023\<rparr> (setup_fn power_on)) \<and>
   Println ''Braking'' \<notin>
     set (trace (loop \<lparr>millis = 101, estopLevel = 1, analog = 1023\<rparr> (setup_fn power_on))) \<and>
   ActuatorWrite 70 \<notin>
     set (trace (loop \<lparr>millis = 101, estopLevel = 1, analog = 1023\<rparr> (setup_fn power_on))) \<and>
   actuatorPosition (loop \<lparr>millis = 101, estopLevel = 1, analog = 1023\<rparr> (setup_fn power_on)) = 55"
proof -
  let ?i = "\<lparr>millis = 101, estopLevel = 1, analog = 1023\<rparr>"
  have r: "run [Iteration ?i] = loop ?i (setup_fn power_on)" by (simp add: run_def)
  have l: "\<not> loadConnected 1023" using loadConnected_iff [of 1023] by simp
  have f: "\<not> estopEngaged (setup_fn power_on)" "\<not> braking (setup_fn power_on)"
    by (simp_all add: setup_fn_def power_on_def emit_def)
  have due: "optimizer_due 101 (braking_state (report_inputs ?i (setup_fn power_on)))"
    by (simp add: optimizer_due_def braking_state_fields report_inputs_fields setup_fn_def
        power_on_def emit_def updateInterval_def)
  have p: "actuatorPosition (loop ?i (setup_fn power_on)) = 55"
    using due f
    by (simp add: loop_unfold tick_fields choose_move_position braking_state_fields
        report_inputs_fields setup_fields bounded_def const_defs)
  show ?thesis using run_no_brake [of "[Iteration ?i]"] l f p
    by (simp add: r should_stop_def report_inputs_fields)
qed

text \<open>
  Claim C5. When \<open>rpm\<close> exceeds \<open>maxShaftRPM\<close> the branch chosen adds \<open>stepSize\<close> to the
  position and changes nothing else but the log, whatever \<open>movingUp\<close> and \<open>lastRPM\<close> are;
  the tick commits that position bounded to 47 to 71, counted from the position the braking
  block left. At exactly \<open>maxShaftRPM\<close> the overspeed message is not logged and the step
  follows the hill-climbing direction.
\<close>

theorem overspeed_step:
  "(maxShaftRPM < rpm u \<longrightarrow>
      choose_move u = emit [Println ''RPM too high, feathering blades.'']
                        (u\<lparr>actuatorPosition := actuatorPosition u + stepSize\<rparr>)) \<and>
   (rpm u = maxShaftRPM \<longrightarrow>
      Println ''RPM too high, feathering blades.'' \<notin> set (drop (length (trace u)) (trace (choose_move u))) \<and>
      actuatorPosition (choose_move u) =
        (if movingUp (choose_move u) then actuatorPosition u + stepSize
         else actuatorPosition u - stepSize)) \<and>
   (optimizer_due (millis inp) (braking_state s) \<and> maxShaftRPM < rpm s \<longrightarrow>
      actuatorPosition (loop inp s) = bounded (actuatorPosition (braking_state s) + stepSize) \<and>
      movingUp (loop inp s) = movingUp s)"
proof -
  have a: "maxShaftRPM < rpm u \<longrightarrow>
      choose_move u = emit [Println ''RPM too high, feathering blades.'']
                        (u\<lparr>actuatorPosition := actuatorPosition u + stepSize\<rparr>)"
    by (simp add: choose_move_def)
  have b: "rpm u = maxShaftRPM \<longrightarrow>
      Println ''RPM too high, feathering blades.'' \<notin> set (drop (length (trace u)) (trace (choose_move u)))"
    by (simp add: choose_move_trace)
  have c: "rpm u = maxShaftRPM \<longrightarrow> actuatorPosition (choose_move u) =
        (if movingUp (choose_move u) then actuatorPosition u + stepSize
         else actuatorPosition u - stepSize)"
    by (simp add: choose_move_position choose_move_movingUp)
  have d: "actuatorPosition (loop inp s) = bounded (actuatorPosition (braking_state s) + stepSize) \<and>
      movingUp (loop inp s) = movingUp s"
    if "optimizer_due (millis inp) (braking_state s)" "maxShaftRPM < rpm s"
  proof -
    have "optimizer_due (millis inp) (braking_state (report_inputs inp s))"
      using that(1) by (simp add: optimizer_due_def braking_state_fields report_inputs_fields)
    then show ?thesis using that(2)
      by (simp add: loop_unfold tick_fields choose_move_position choose_move_movingUp
          braking_state_fields report_inputs_fields)
  qed
  show ?thesis using a b c d by blast
qed

theorem overspeed_step_witness:
  "maxShaftRPM < rpm (power_on\<lparr>rpm := 1800, movingUp := False\<rparr>) \<and>
   actuatorPosition (choose_move (power_on\<lparr>rpm := 1800, movingUp := False\<rparr>)) = 57 \<and>
   rpm (power_on\<lparr>rpm := 1750, movingUp := False, lastRPM := 1700\<rparr>) = maxShaftRPM \<and>
   actuatorPosition (choose_move (power_on\<lparr>rpm := 1750, movingUp := False, lastRPM := 1700\<rparr>)) = 55 \<and>
   optimizer_due 101 (braking_state (power_on\<lparr>rpm := 1800, movingUp := False\<rparr>)) \<and>
   actuatorPosition (loop \<lparr>millis = 101, estopLevel = 0, analog = 512\<rparr>
      (power_on\<lparr>rpm := 1800, movingUp := False\<rparr>)) = 57 \<and>
   \<not> movingUp (loop \<lparr>millis = 101, estopLevel = 0, analog = 512\<rparr>
      (power_on\<lparr>rpm := 1800, movingUp := False\<rparr>))"
proof -
  have h1: "maxShaftRPM < rpm (power_on\<lparr>rpm := 1800, movingUp := False\<rparr>)"
    by (simp add: maxShaftRPM_def)
  have h2: "rpm (power_on\<lparr>rpm := 1750, movingUp := False, lastRPM := 1700\<rparr>) = maxShaftRPM"
    by (simp add: maxShaftRPM_def)
  have h3: "optimizer_due 101 (braking_state (power_on\<lparr>rpm := 1800, movingUp := False\<rparr>))"
    by (simp add: optimizer_due_def braking_state_fields power_on_def updateInterval_def)
  have m: "\<not> movingUp (choose_move (power_on\<lparr>rpm := 1750, movingUp := False, lastRPM := 1700\<rparr>))"
    by (simp add: choose_move_movingUp maxShaftRPM_def)
  show ?thesis
    using h1 h2 h3 m
      overspeed_step [of "power_on\<lparr>rpm := 1800, movingUp := False\<rparr>"
        "\<lparr>millis = 101, estopLevel = 0, analog = 512\<rparr>"
        "power_on\<lparr>rpm := 1800, movingUp := False\<rparr>"]
      overspeed_step [of "power_on\<lparr>rpm := 1750, movingUp := False, lastRPM := 1700\<rparr>"]
    by (simp add: emit_fields braking_state_fields bounded_def const_defs power_on_def)
qed

text \<open>
  Claim C6. On a tick that is not an overspeed tick, \<open>movingUp\<close> is kept when \<open>rpm\<close>
  exceeds \<open>lastRPM\<close> and flipped otherwise, and the position is moved one \<open>stepSize\<close> in
  the resulting direction; the tick then bounds the position to 47 to 71 (lines 189 and
  190), which changes nothing when it started strictly inside the range, and sets
  \<open>lastRPM\<close> to \<open>rpm\<close>. On every tick of every run of the shipped sketch the committed
  position is exactly one \<open>stepSize\<close> from the previous one.
\<close>

theorem hill_climb_step:
  "(\<not> maxShaftRPM < rpm u \<longrightarrow>
      movingUp (choose_move u) = (if lastRPM u < rpm u then movingUp u else \<not> movingUp u) \<and>
      actuatorPosition (choose_move u) =
        (if movingUp (choose_move u) then actuatorPosition u + stepSize
         else actuatorPosition u - stepSize)) \<and>
   (optimizer_due (millis inp) (braking_state s) \<and> \<not> maxShaftRPM < rpm s \<longrightarrow>
      movingUp (loop inp s) = (if lastRPM s < rpm s then movingUp s else \<not> movingUp s) \<and>
      actuatorPosition (loop inp s) =
        bounded (if movingUp (loop inp s) then actuatorPosition (braking_state s) + stepSize
                 else actuatorPosition (braking_state s) - stepSize) \<and>
      (47 < actuatorPosition (braking_state s) \<and> actuatorPosition (braking_state s) < 71 \<longrightarrow>
         actuatorPosition (loop inp s) =
           (if movingUp (loop inp s) then actuatorPosition (braking_state s) + stepSize
            else actuatorPosition (braking_state s) - stepSize)) \<and>
      lastRPM (loop inp s) = rpm s) \<and>
   (optimizer_due (millis inp) (braking_state (run acts)) \<longrightarrow>
      \<not> maxShaftRPM < rpm (run acts) \<and>
      movingUp (loop inp (run acts)) =
        (if lastRPM (run acts) < rpm (run acts) then movingUp (run acts)
         else \<not> movingUp (run acts)) \<and>
      actuatorPosition (loop inp (run acts)) =
        (if movingUp (loop inp (run acts)) then actuatorPosition (run acts) + stepSize
         else actuatorPosition (run acts) - stepSize) \<and>
      lastRPM (loop inp (run acts)) = rpm (run acts))"
proof -
  have a: "movingUp (choose_move u) = (if lastRPM u < rpm u then movingUp u else \<not> movingUp u) \<and>
      actuatorPosition (choose_move u) =
        (if movingUp (choose_move u) then actuatorPosition u + stepSize
         else actuatorPosition u - stepSize)"
    if "\<not> maxShaftRPM < rpm u"
    using that by (simp add: choose_move_movingUp choose_move_position)
  have b: "movingUp (loop inp s') = (if lastRPM s' < rpm s' then movingUp s' else \<not> movingUp s') \<and>
      actuatorPosition (loop inp s') =
        bounded (if movingUp (loop inp s') then actuatorPosition (braking_state s') + stepSize
                 else actuatorPosition (braking_state s') - stepSize) \<and>
      (47 < actuatorPosition (braking_state s') \<and> actuatorPosition (braking_state s') < 71 \<longrightarrow>
         actuatorPosition (loop inp s') =
           (if movingUp (loop inp s') then actuatorPosition (braking_state s') + stepSize
            else actuatorPosition (braking_state s') - stepSize)) \<and>
      lastRPM (loop inp s') = rpm s'"
    if h: "optimizer_due (millis inp) (braking_state s')" "\<not> maxShaftRPM < rpm s'" for s'
  proof -
    have due: "optimizer_due (millis inp) (braking_state (report_inputs inp s'))"
      using h(1) by (simp add: optimizer_due_def braking_state_fields report_inputs_fields)
    have m: "movingUp (loop inp s') = (if lastRPM s' < rpm s' then movingUp s' else \<not> movingUp s')"
      using due h(2)
      by (simp add: loop_unfold tick_fields choose_move_movingUp braking_state_fields
          report_inputs_fields)
    have p: "actuatorPosition (loop inp s') =
        bounded (if movingUp (loop inp s') then actuatorPosition (braking_state s') + stepSize
                 else actuatorPosition (braking_state s') - stepSize)"
      using due h(2) unfolding m
      by (simp add: loop_unfold tick_fields choose_move_position braking_state_fields
          report_inputs_fields)
    have q: "actuatorPosition (loop inp s') =
           (if movingUp (loop inp s') then actuatorPosition (braking_state s') + stepSize
            else actuatorPosition (braking_state s') - stepSize)"
      if "47 < actuatorPosition (braking_state s')" "actuatorPosition (braking_state s') < 71"
      using that unfolding p by (simp add: bounded_def const_defs)
    have l: "lastRPM (loop inp s') = rpm s'"
      using due by (simp add: loop_unfold tick_fields braking_state_fields report_inputs_fields)
    show ?thesis using m p q l by blast
  qed
  have c: "\<not> maxShaftRPM < rpm (run acts) \<and>
      movingUp (loop inp (run acts)) =
        (if lastRPM (run acts) < rpm (run acts) then movingUp (run acts)
         else \<not> movingUp (run acts)) \<and>
      actuatorPosition (loop inp (run acts)) =
        (if movingUp (loop inp (run acts)) then actuatorPosition (run acts) + stepSize
         else actuatorPosition (run acts) - stepSize) \<and>
      lastRPM (loop inp (run acts)) = rpm (run acts)"
    if due: "optimizer_due (millis inp) (braking_state (run acts))"
  proof -
    have inv: "rpm (run acts) = 0" "\<not> braking (run acts)"
      using run_inv [of acts] by simp_all
    have n: "\<not> maxShaftRPM < rpm (run acts)" using inv by (simp add: maxShaftRPM_def)
    have ps: "actuatorPosition (braking_state (run acts)) = actuatorPosition (run acts)"
      using inv by (simp add: braking_state_fields)
    have inside: "47 < actuatorPosition (braking_state (run acts))"
      "actuatorPosition (braking_state (run acts)) < 71"
      using run_pos [of acts] unfolding ps by auto
    note t = b [OF due n]
    from t inside have e: "actuatorPosition (loop inp (run acts)) =
        (if movingUp (loop inp (run acts)) then actuatorPosition (braking_state (run acts)) + stepSize
         else actuatorPosition (braking_state (run acts)) - stepSize)"
      by blast
    show ?thesis using t e n unfolding ps by blast
  qed
  show ?thesis using a b c by blast
qed

theorem hill_climb_step_witness:
  "\<not> maxShaftRPM < rpm (power_on\<lparr>rpm := 100, lastRPM := 50\<rparr>) \<and>
   actuatorPosition (choose_move (power_on\<lparr>rpm := 100, lastRPM := 50\<rparr>)) = 57 \<and>
   optimizer_due 101 (braking_state (power_on\<lparr>rpm := 100, lastRPM := 50\<rparr>)) \<and>
   47 < actuatorPosition (braking_state (power_on\<lparr>rpm := 100, lastRPM := 50\<rparr>)) \<and>
   actuatorPosition (braking_state (power_on\<lparr>rpm := 100, lastRPM := 50\<rparr>)) < 71 \<and>
   movingUp (loop \<lparr>millis = 101, estopLevel = 0, analog = 512\<rparr>
      (power_on\<lparr>rpm := 100, lastRPM := 50\<rparr>)) \<and>
   actuatorPosition (loop \<lparr>millis = 101, estopLevel = 0, analog = 512\<rparr>
      (power_on\<lparr>rpm := 100, lastRPM := 50\<rparr>)) = 57 \<and>
   lastRPM (loop \<lparr>millis = 101, estopLevel = 0, analog = 512\<rparr>
      (power_on\<lparr>rpm := 100, lastRPM := 50\<rparr>)) = 100 \<and>
   optimizer_due 101 (braking_state (run [])) \<and>
   \<not> movingUp (loop \<lparr>millis = 101, estopLevel = 0, analog = 512\<rparr> (run [])) \<and>
   actuatorPosition (run []) = 56 \<and>
   actuatorPosition (loop \<lparr>millis = 101, estopLevel = 0, analog = 512\<rparr> (run [])) = 55"
proof -
  let ?u = "power_on\<lparr>rpm := 100, lastRPM := 50\<rparr>"
  let ?i = "\<lparr>millis = 101, estopLevel = 0, analog = 512\<rparr>"
  have h1: "optimizer_due 101 (braking_state ?u)"
    by (simp add: optimizer_due_def braking_state_fields power_on_def updateInterval_def)
  have h2: "\<not> maxShaftRPM < rpm ?u" by (simp add: maxShaftRPM_def)
  have h3: "actuatorPosition (braking_state ?u) = 56" "actuatorPosition ?u = 56"
    by (simp_all add: braking_state_fields power_on_def)
  have h4: "movingUp ?u" "lastRPM ?u = 50" "rpm ?u = 100"
    by (simp_all add: power_on_def)
  have r1: "optimizer_due 101 (braking_state (run []))"
    by (simp add: optimizer_due_def braking_state_fields run_def setup_fn_def power_on_def
        emit_def updateInterval_def)
  have r2: "movingUp (run [])" "actuatorPosition (run []) = 56" "rpm (run []) = 0"
    "lastRPM (run []) = 0"
    by (simp_all add: run_def setup_fn_def power_on_def emit_def)
  show ?thesis
    using h1 h2 h3 h4 r1 r2 hill_climb_step [of ?u ?i ?u "[]"]
    by (simp add: bounded_def const_defs)
qed

text \<open>
  Claim C7, as the code has it. The state is one the sketch can be in: ten slots and a
  cursor below ten. For a consumed interval \<open>i > 0\<close> the instantaneous RPM is
  \<open>60000000 / i\<close> computed in single precision: not the exact quotient, but within one part
  in \<open>2 ^ 22\<close> of it. The sample is stored at the cursor, the cursor advances modulo
  \<open>numSamples\<close> and the smoothed RPM is recomputed exactly when the exact quotient lies
  strictly between \<open>minValidRPM\<close> and \<open>maxValidRPM\<close>; otherwise the buffer, the cursor and
  the smoothed RPM are unchanged.
\<close>

theorem rpm_sample_admission:
  assumes "pulseReceived s" and "0 < pulseInterval s"
    and "length (rpmSamples s) = numSamples" and "sampleIndex s < numSamples"
  shows "\<bar>newRPM (pulseInterval s) - 60000000 / of_nat (unat (pulseInterval s))\<bar>
           \<le> 60000000 / of_nat (unat (pulseInterval s)) / 2 ^ 22 \<and>
    (if minValidRPM < 60000000 / of_nat (unat (pulseInterval s)) \<and>
        60000000 / of_nat (unat (pulseInterval s)) < maxValidRPM
     then rpmSamples (handleRPMUpdates s) =
            (rpmSamples s)[sampleIndex s := newRPM (pulseInterval s)] \<and>
          sampleIndex (handleRPMUpdates s) = (sampleIndex s + 1) mod numSamples \<and>
          rpm (handleRPMUpdates s) =
            f32 (sum_samples (rpmSamples (handleRPMUpdates s)) / of_nat numSamples)
     else rpmSamples (handleRPMUpdates s) = rpmSamples s \<and>
          sampleIndex (handleRPMUpdates s) = sampleIndex s \<and>
          rpm (handleRPMUpdates s) = rpm s)"
proof -
  let ?i = "pulseInterval s"
  have err: "\<bar>newRPM ?i - 60000000 / of_nat (unat ?i)\<bar> \<le> 60000000 / of_nat (unat ?i) / 2 ^ 22"
    using assms(2) by (rule newRPM_error)
  note pend = assms(1,2)
  show ?thesis
  proof (cases "minValidRPM < 60000000 / of_nat (unat ?i) \<and> 60000000 / of_nat (unat ?i) < maxValidRPM")
    case True
    then have v: "minValidRPM < newRPM ?i" "newRPM ?i < maxValidRPM"
      using newRPM_valid_iff [OF assms(2)] by simp_all
    have "rpmSamples (handleRPMUpdates s) =
            (rpmSamples s)[sampleIndex s := newRPM (pulseInterval s)] \<and>
          sampleIndex (handleRPMUpdates s) = (sampleIndex s + 1) mod numSamples \<and>
          rpm (handleRPMUpdates s) =
            f32 (sum_samples (rpmSamples (handleRPMUpdates s)) / of_nat numSamples)"
      using handle_accept(1-3) [OF pend v] by simp
    then show ?thesis using err by (simp only: if_P [OF True] simp_thms)
  next
    case False
    then have "\<not> (minValidRPM < newRPM ?i \<and> newRPM ?i < maxValidRPM)"
      using newRPM_valid_iff [OF assms(2)] by simp
    then have "handleRPMUpdates s = emit [Println ''Ignored bad RPM reading''] (s\<lparr>pulseReceived := False\<rparr>)"
      using pend by (intro handle_reject)
    then have "rpmSamples (handleRPMUpdates s) = rpmSamples s \<and>
          sampleIndex (handleRPMUpdates s) = sampleIndex s \<and>
          rpm (handleRPMUpdates s) = rpm s"
      by (simp add: emit_fields)
    then show ?thesis using err by (simp only: if_not_P [OF False] simp_thms)
  qed
qed

theorem rpm_sample_admission_witness:
  "pulseReceived (pulseISR 34286 (setup_fn power_on)) \<and>
   0 < pulseInterval (pulseISR 34286 (setup_fn power_on)) \<and>
   length (rpmSamples (pulseISR 34286 (setup_fn power_on))) = numSamples \<and>
   sampleIndex (pulseISR 34286 (setup_fn power_on)) < numSamples \<and>
   rpmSamples (handleRPMUpdates (pulseISR 34286 (setup_fn power_on))) =
     (replicate numSamples 0)[0 := 14335881 / 8192] \<and>
   sampleIndex (handleRPMUpdates (pulseISR 34286 (setup_fn power_on))) = 1 \<and>
   pulseReceived (pulseISR 7 (setup_fn power_on)) \<and>
   0 < pulseInterval (pulseISR 7 (setup_fn power_on)) \<and>
   length (rpmSamples (pulseISR 7 (setup_fn power_on))) = numSamples \<and>
   sampleIndex (pulseISR 7 (setup_fn power_on)) < numSamples \<and>
   rpmSamples (handleRPMUpdates (pulseISR 7 (setup_fn power_on))) = replicate numSamples 0 \<and>
   rpm (handleRPMUpdates (pulseISR 7 (setup_fn power_on))) = 0"
proof -
  have a: "pulseReceived (pulseISR 34286 (setup_fn power_on))"
    "0 < pulseInterval (pulseISR 34286 (setup_fn power_on))"
    "pulseInterval (pulseISR 34286 (setup_fn power_on)) = 34286"
    by (simp_all add: pulse_fields setup_fields)
  have b: "pulseReceived (pulseISR 7 (setup_fn power_on))"
    "0 < pulseInterval (pulseISR 7 (setup_fn power_on))"
    "pulseInterval (pulseISR 7 (setup_fn power_on)) = 7"
    by (simp_all add: pulse_fields setup_fields)
  have wf: "length (rpmSamples (pulseISR now (setup_fn power_on))) = numSamples"
    "sampleIndex (pulseISR now (setup_fn power_on)) < numSamples" for now
    by (simp_all add: pulse_fields setup_fields numSamples_def)
  show ?thesis
    using a b wf rpm_sample_admission [OF a(1,2) wf] rpm_sample_admission [OF b(1,2) wf]
    by (simp add: pulse_fields setup_fields newRPM_34286 minValidRPM_def maxValidRPM_def
        numSamples_def)
qed

text \<open>
  Claim C7 as stated fails on "exactly": for the interval 34286 the sample stored is
  \<open>14335881 / 8192\<close>, the single-precision value nearest to \<open>60000000 / 34286\<close>, which no
  binary floating-point value equals.
\<close>

theorem rpm_sample_counterexample:
  "pulseReceived (pulseISR 34286 (setup_fn power_on)) \<and>
   pulseInterval (pulseISR 34286 (setup_fn power_on)) = 34286 \<and>
   newRPM 34286 = 14335881 / 8192 \<and>
   rpmSamples (handleRPMUpdates (pulseISR 34286 (setup_fn power_on))) ! 0 = 14335881 / 8192 \<and>
   (14335881 / 8192 :: rat) \<noteq> 60000000 / 34286"
proof -
  have a: "pulseReceived (pulseISR 34286 (setup_fn power_on))"
    "pulseInterval (pulseISR 34286 (setup_fn power_on)) = 34286"
    by (simp_all add: pulse_fields setup_fields)
  have v: "minValidRPM < newRPM (pulseInterval (pulseISR 34286 (setup_fn power_on)))"
    "newRPM (pulseInterval (pulseISR 34286 (setup_fn power_on))) < maxValidRPM"
    by (simp_all add: a newRPM_34286 minValidRPM_def maxValidRPM_def)
  have p: "0 < pulseInterval (pulseISR 34286 (setup_fn power_on))" by (simp add: a)
  have "rpmSamples (handleRPMUpdates (pulseISR 34286 (setup_fn power_on))) ! 0 = 14335881 / 8192"
    using handle_accept(1) [OF a(1) p v]
    by (simp add: a pulse_fields setup_fields newRPM_34286 numSamples_def)
  then show ?thesis using a by (simp add: newRPM_34286)
qed

text \<open>
  Claim C8. When \<open>braking\<close> is true at the braking check, the block sets the position to
  70, which is not \<open>actuatorMax\<close>, writes 70 to the actuator, and clears \<open>braking\<close> and
  \<open>estopEngaged\<close>; both are still clear when the iteration ends. The optimizer runs after
  the block in the same iteration, on the state the block left.
\<close>

theorem braking_one_shot:
  assumes "braking s"
  shows "actuatorPosition (braking_state (report_inputs inp s)) = 70 \<and> 70 \<noteq> actuatorMax \<and>
     trace (braking_state (report_inputs inp s)) =
       trace (report_inputs inp s) @ [Println ''Braking'', ActuatorWrite 70, PrintlnI 70] \<and>
     \<not> braking (braking_state (report_inputs inp s)) \<and>
     \<not> estopEngaged (braking_state (report_inputs inp s)) \<and>
     loop inp s = actuator_optimization (millis inp) (braking_state (report_inputs inp s)) \<and>
     \<not> braking (loop inp s) \<and> \<not> estopEngaged (loop inp s)"
  using assms
  by (simp add: loop_unfold tick_flags braking_state_fields report_inputs_fields actuatorMax_def)

theorem braking_one_shot_witness:
  "braking (power_on\<lparr>braking := True, estopEngaged := True\<rparr>) \<and>
   actuatorPosition (braking_state (report_inputs \<lparr>millis = 101, estopLevel = 0, analog = 512\<rparr>
      (power_on\<lparr>braking := True, estopEngaged := True\<rparr>))) = 70 \<and>
   \<not> braking (loop \<lparr>millis = 101, estopLevel = 0, analog = 512\<rparr>
      (power_on\<lparr>braking := True, estopEngaged := True\<rparr>)) \<and>
   \<not> estopEngaged (loop \<lparr>millis = 101, estopLevel = 0, analog = 512\<rparr>
      (power_on\<lparr>braking := True, estopEngaged := True\<rparr>))"
proof -
  have b: "braking (power_on\<lparr>braking := True, estopEngaged := True\<rparr>)" by simp
  show ?thesis
    using b braking_one_shot [OF b, of "\<lparr>millis = 101, estopLevel = 0, analog = 512\<rparr>"]
    by blast
qed

text \<open>
  Claim C9. \<^verbatim>\<open>loadThreshold\<close> is declared \<^verbatim>\<open>const int\<close> with the initialiser \<^verbatim>\<open>11.90\<close>, so
  its value is 11: a reading of 704 gives a load voltage of exactly 11.0, below 11.90, and
  \<^verbatim>\<open>loadConnected\<close> is false; so it is for every reading up to 761, the last below 11.90.
\<close>

theorem load_threshold_truncated:
  "loadThreshold = 11 \<and> Vload 704 = 11 \<and> Vload 704 < 119 / 10 \<and> \<not> loadConnected 704 \<and>
   Vload 761 < 119 / 10 \<and> \<not> loadConnected 761"
  using Vload_exact [of 704] Vload_exact [of 761] loadConnected_iff [of 704]
    loadConnected_iff [of 761] loadThreshold_value
  by simp

text \<open>
  Claim C10, as the code has it. A pulse interval of 34286 microseconds is
  \<open>60000000 / 34286\<close> RPM, a little under 1750. Fed as the only input from startup, it
  keeps the smoothed RPM below \<open>maxShaftRPM\<close> after any number of samples, so the overspeed
  test of line 153 never succeeds; from the tenth sample on the smoothed RPM is
  \<open>7167941 / 4096\<close>, that is 1749.985595703125.
\<close>

theorem steady_interval_below_limit:
  "(60000000 / 34286 :: rat) < 1750 \<and>
   rpm (steady_run n) < maxShaftRPM \<and> \<not> maxShaftRPM < rpm (steady_run n) \<and>
   (10 \<le> n \<longrightarrow> rpm (steady_run n) = 7167941 / 4096)"
  using steady_run_rpm_upper [of n] steady_run_rpm_exact [of n]
  by (simp add: maxShaftRPM_def)

theorem steady_interval_below_limit_witness:
  "(10::nat) \<le> 10 \<and> rpm (steady_run 10) = 7167941 / 4096 \<and> rpm (steady_run 10) < maxShaftRPM"
  using steady_interval_below_limit [of 10] by simp

text \<open>
  Claim C10 as stated fails: the interval is not exactly 1750 RPM, and after ten samples of
  it the smoothed RPM is not 1750.
\<close>

theorem steady_interval_counterexample:
  "(60000000 / 34286 :: rat) \<noteq> 1750 \<and> rpm (steady_run 10) = 7167941 / 4096 \<and>
   rpm (steady_run 10) \<noteq> 1750"
  using steady_run_rpm_exact [of 10] by simp

end
